theory Spec2Isabelle
  imports Complex_Main "HOL-Library.Multiset"
begin

section \<open>Data model\<close>

text \<open>
  The worker (\<^verbatim>\<open>cloudflare-workers/worker.js\<close>) keeps chat messages in the KV
  namespace \<^verbatim>\<open>CHAT_DB\<close> and request counters in the KV namespace
  \<^verbatim>\<open>RATE_LIMIT\<close>. A string of the source is a \<open>string\<close> here, one character for
  each code unit, so that \<open>length\<close> is the \<^verbatim>\<open>.length\<close> of the source. The timestamp
  of a message is the instant its ISO string denotes, in milliseconds, which is what
  \<^verbatim>\<open>new Date(m.timestamp)\<close> yields in the sort of \<^verbatim>\<open>getConversationMessages\<close>.
\<close>

datatype MessageRole = USER | ASSISTANT | SYSTEM

record Message =
  msg_id :: string
  content :: string
  role :: MessageRole
  timestamp :: int
  conversationId :: string
  model :: "string option"
  tokens :: int

text \<open>
  \<^verbatim>\<open>CHAT_DB\<close> holds JSON text written by \<^verbatim>\<open>JSON.stringify\<close> and read back by
  \<^verbatim>\<open>JSON.parse\<close>. The model stores the value the text denotes: a message object or
  an array of message ids. Texts of any other shape, which the worker never writes, are
  not part of the model.
\<close>

datatype json = JMessage Message | JIds "string list"

datatype error =
    StorageError
  | TypeError
  | NetworkError
  | UpstreamError nat
  | UpstreamFormatError

section \<open>The key-value store\<close>

text \<open>
  A KV namespace maps a key to a value and an optional absolute expiration instant
  (seconds). An operation of an unreachable namespace throws; the three flags say which
  operations throw.
\<close>

record 'v kv =
  entries :: "string \<rightharpoonup> ('v \<times> nat option)"
  get_fails :: bool
  put_fails :: bool
  delete_fails :: bool

definition visible :: "'v kv \<Rightarrow> nat \<Rightarrow> string \<Rightarrow> 'v option" where
  "visible s t k =
     (case entries s k of
        None \<Rightarrow> None
      | Some (v, None) \<Rightarrow> Some v
      | Some (v, Some x) \<Rightarrow> (if t < x then Some v else None))"

definition kv_get :: "'v kv \<Rightarrow> nat \<Rightarrow> string \<Rightarrow> error + 'v option" where
  "kv_get s t k = (if get_fails s then Inl StorageError else Inr (visible s t k))"

definition kv_put :: "'v kv \<Rightarrow> nat \<Rightarrow> string \<Rightarrow> 'v \<Rightarrow> nat option \<Rightarrow> error + 'v kv" where
  "kv_put s t k v ttl =
     (if put_fails s then Inl StorageError
      else Inr (s\<lparr>entries := (entries s)(k \<mapsto> (v, map_option (\<lambda>d. t + d) ttl))\<rparr>))"

definition kv_delete :: "'v kv \<Rightarrow> string \<Rightarrow> error + 'v kv" where
  "kv_delete s k =
     (if delete_fails s then Inl StorageError
      else Inr (s\<lparr>entries := (entries s)(k := None)\<rparr>))"

section \<open>The environment of a request\<close>

datatype binding = ChatDb | RateLimit

record ChatMessage =
  cm_role :: string
  cm_content :: string

record RequestBody =
  rb_model :: "string option"
  rb_messages :: "ChatMessage list"
  rb_temperature :: "real option"
  rb_max_tokens :: "int option"
  rb_stream :: bool

record Usage =
  prompt_tokens :: int
  completion_tokens :: int
  total_tokens :: int

text \<open>
  What \<^verbatim>\<open>fetch\<close> of the completion endpoint can give back: the call or the reading
  of its body throws, the status is not ok, the body has no \<^verbatim>\<open>choices[0]\<close>, or a
  completion with its optional usage.
\<close>

datatype Reply =
    FetchThrows
  | NotOk nat
  | NoChoices
  | Completion string "Usage option"

datatype event =
    KvGet binding string
  | KvPut binding string
  | KvDelete binding string
  | Fetch RequestBody

record env =
  CHAT_DB :: "json kv"
  RATE_LIMIT :: "string kv"
  now :: nat
  upstream :: "RequestBody \<Rightarrow> Reply"
  trace :: "event list"

type_synonym 'a io = "env \<Rightarrow> (error + 'a) \<times> env"

definition returnE :: "'a \<Rightarrow> 'a io" where
  "returnE a e = (Inr a, e)"

definition throwE :: "error \<Rightarrow> 'a io" where
  "throwE x e = (Inl x, e)"

definition bindE :: "'a io \<Rightarrow> ('a \<Rightarrow> 'b io) \<Rightarrow> 'b io" where
  "bindE f g e = (case f e of (Inl x, e1) \<Rightarrow> (Inl x, e1) | (Inr a, e1) \<Rightarrow> g a e1)"

definition record_event :: "event \<Rightarrow> env \<Rightarrow> env" where
  "record_event ev e = e\<lparr>trace := trace e @ [ev]\<rparr>"

definition db_get :: "string \<Rightarrow> json option io" where
  "db_get k e = (kv_get (CHAT_DB e) (now e) k, record_event (KvGet ChatDb k) e)"

definition db_put :: "string \<Rightarrow> json \<Rightarrow> unit io" where
  "db_put k v e =
     (case kv_put (CHAT_DB e) (now e) k v None of
        Inl x \<Rightarrow> (Inl x, record_event (KvPut ChatDb k) e)
      | Inr s \<Rightarrow> (Inr (), (record_event (KvPut ChatDb k) e)\<lparr>CHAT_DB := s\<rparr>))"

definition db_delete :: "string \<Rightarrow> unit io" where
  "db_delete k e =
     (case kv_delete (CHAT_DB e) k of
        Inl x \<Rightarrow> (Inl x, record_event (KvDelete ChatDb k) e)
      | Inr s \<Rightarrow> (Inr (), (record_event (KvDelete ChatDb k) e)\<lparr>CHAT_DB := s\<rparr>))"

section \<open>ConversationStore\<close>

definition msgKey :: "string \<Rightarrow> string \<Rightarrow> string" where
  "msgKey c i = ''msg:'' @ c @ '':'' @ i"

definition convKey :: "string \<Rightarrow> string" where
  "convKey c = ''conv:'' @ c"

text \<open>
  \<^verbatim>\<open>existingList ? JSON.parse(existingList) : []\<close> followed by \<^verbatim>\<open>push\<close>: a value
  that is not an array has no \<^verbatim>\<open>push\<close>, and the call throws a TypeError.
\<close>

definition parse_ids :: "json option \<Rightarrow> error + string list" where
  "parse_ids d =
     (case d of
        None \<Rightarrow> Inr []
      | Some (JIds ids) \<Rightarrow> Inr ids
      | Some (JMessage m) \<Rightarrow> Inl TypeError)"

definition saveMessage :: "Message \<Rightarrow> unit io" where
  "saveMessage m =
     bindE (db_put (msgKey (conversationId m) (msg_id m)) (JMessage m)) (\<lambda>_.
     bindE (db_get (convKey (conversationId m))) (\<lambda>existingList.
       case parse_ids existingList of
         Inl x \<Rightarrow> throwE x
       | Inr ids0 \<Rightarrow>
           (let messageIds = ids0 @ [msg_id m] in
            if length messageIds > 100
            then bindE (db_delete (msgKey (conversationId m) (hd messageIds))) (\<lambda>_.
                   db_put (convKey (conversationId m)) (JIds (tl messageIds)))
            else db_put (convKey (conversationId m)) (JIds messageIds))))"

text \<open>
  The loop of \<^verbatim>\<open>getConversationMessages\<close>: one \<^verbatim>\<open>get\<close> per id, a missing record
  is skipped. A record key that holds an array is outside the typed store (the source
  would push the array, and its callers fail on it); the model reports a TypeError.
\<close>

fun collect :: "string \<Rightarrow> string list \<Rightarrow> Message list \<Rightarrow> Message list io" where
  "collect c [] acc = returnE acc"
| "collect c (i # ids) acc =
     bindE (db_get (msgKey c i)) (\<lambda>messageData.
       case messageData of
         None \<Rightarrow> collect c ids acc
       | Some (JMessage m) \<Rightarrow> collect c ids (acc @ [m])
       | Some (JIds _) \<Rightarrow> throwE TypeError)"

text \<open>
  \<^verbatim>\<open>Array.prototype.sort\<close> is a stable sort; \<open>sort_key\<close> is the stable sort by the
  key.
\<close>

definition getConversationMessages :: "string \<Rightarrow> Message list io" where
  "getConversationMessages c =
     bindE (db_get (convKey c)) (\<lambda>messageIds.
       case messageIds of
         None \<Rightarrow> returnE []
       | Some (JMessage _) \<Rightarrow> throwE TypeError
       | Some (JIds ids) \<Rightarrow>
           bindE (collect c ids []) (\<lambda>messages. returnE (sort_key timestamp messages)))"

fun delete_all :: "string \<Rightarrow> string list \<Rightarrow> unit io" where
  "delete_all c [] = returnE ()"
| "delete_all c (i # ids) = bindE (db_delete (msgKey c i)) (\<lambda>_. delete_all c ids)"

definition clearConversationMessages :: "string \<Rightarrow> unit io" where
  "clearConversationMessages c =
     bindE (db_get (convKey c)) (\<lambda>messageIds.
       case messageIds of
         None \<Rightarrow> returnE ()
       | Some (JMessage _) \<Rightarrow> throwE TypeError
       | Some (JIds ids) \<Rightarrow> bindE (delete_all c ids) (\<lambda>_. db_delete (convKey c)))"

section \<open>RateLimiter\<close>

text \<open>
  The counter is stored as the decimal text of a number and read back with
  \<^verbatim>\<open>parseInt\<close>, which may give \<^verbatim>\<open>NaN\<close>. Numbers stay far below \<open>2 ^ 53\<close>, where
  the arithmetic of doubles on integers is exact.
\<close>

datatype jsnum = Num int | NaN

definition js_add :: "jsnum \<Rightarrow> jsnum \<Rightarrow> jsnum" where
  "js_add a b = (case (a, b) of (Num x, Num y) \<Rightarrow> Num (x + y) | _ \<Rightarrow> NaN)"

definition js_sub :: "jsnum \<Rightarrow> jsnum \<Rightarrow> jsnum" where
  "js_sub a b = (case (a, b) of (Num x, Num y) \<Rightarrow> Num (x - y) | _ \<Rightarrow> NaN)"

definition js_ge :: "jsnum \<Rightarrow> jsnum \<Rightarrow> bool" where
  "js_ge a b = (case (a, b) of (Num x, Num y) \<Rightarrow> y \<le> x | _ \<Rightarrow> False)"

fun digits :: "nat \<Rightarrow> string" where
  "digits n =
     (if n < 10 then [char_of (48 + n)]
      else digits (n div 10) @ [char_of (48 + n mod 10)])"

declare digits.simps [simp del]

definition toString :: "jsnum \<Rightarrow> string" where
  "toString a =
     (case a of
        NaN \<Rightarrow> ''NaN''
      | Num x \<Rightarrow> (if x < 0 then ''-'' @ digits (nat (- x)) else digits (nat x)))"

definition is_space :: "char \<Rightarrow> bool" where
  "is_space c = (c \<in> set [CHR '' '', CHR 0x09, CHR 0x0A, CHR 0x0B, CHR 0x0C, CHR 0x0D, CHR 0xA0])"

definition digit_val :: "char \<Rightarrow> nat" where
  "digit_val c =
     (let n = (of_char c :: nat) in
      if 48 \<le> n \<and> n \<le> 57 then n - 48
      else if 97 \<le> n \<and> n \<le> 122 then n - 87
      else if 65 \<le> n \<and> n \<le> 90 then n - 55
      else 36)"

definition in_radix :: "nat \<Rightarrow> char \<Rightarrow> bool" where
  "in_radix r c = (digit_val c < r)"

text \<open>
  \<^verbatim>\<open>parseInt(s)\<close> without a radix: leading white space and one sign are skipped, a
  prefix \<^verbatim>\<open>0x\<close> selects radix 16, the longest prefix of digits is read, and no digit
  at all gives \<^verbatim>\<open>NaN\<close>.
\<close>

definition parseInt :: "string \<Rightarrow> jsnum" where
  "parseInt s =
     (let s1 = dropWhile is_space s;
          neg = (take 1 s1 = ''-'');
          s2 = (if take 1 s1 = ''+'' \<or> take 1 s1 = ''-'' then drop 1 s1 else s1);
          hex = (take 2 s2 = ''0x'' \<or> take 2 s2 = ''0X'');
          r = (if hex then 16 else 10);
          s3 = (if hex then drop 2 s2 else s2);
          ds = takeWhile (in_radix r) s3;
          n = int (foldl (\<lambda>a c. a * r + digit_val c) 0 ds)
      in if ds = [] then NaN else Num (if neg then - n else n))"

record RateLimitResult =
  allowed :: bool
  remaining :: "jsnum option"
  resetTime :: "nat option"

definition rateKey :: "string \<Rightarrow> string" where
  "rateKey clientIP = ''rate:'' @ clientIP"

definition rl_get :: "string \<Rightarrow> string option io" where
  "rl_get k e = (kv_get (RATE_LIMIT e) (now e) k, record_event (KvGet RateLimit k) e)"

definition rl_put :: "string \<Rightarrow> string \<Rightarrow> nat option \<Rightarrow> unit io" where
  "rl_put k v ttl e =
     (case kv_put (RATE_LIMIT e) (now e) k v ttl of
        Inl x \<Rightarrow> (Inl x, record_event (KvPut RateLimit k) e)
      | Inr s \<Rightarrow> (Inr (), (record_event (KvPut RateLimit k) e)\<lparr>RATE_LIMIT := s\<rparr>))"

definition limit :: nat where
  "limit = 30"

definition window :: nat where
  "window = 60"

text \<open>The \<^verbatim>\<open>try\<close> block of \<^verbatim>\<open>checkRateLimit\<close>. An empty string is falsy.\<close>

definition checkRateLimit_try :: "string \<Rightarrow> RateLimitResult io" where
  "checkRateLimit_try clientIP =
     bindE (rl_get (rateKey clientIP)) (\<lambda>current.
       let count = (case current of
                      None \<Rightarrow> Num 0
                    | Some s \<Rightarrow> (if s = [] then Num 0 else parseInt s))
       in if js_ge count (Num (int limit))
          then returnE \<lparr>allowed = False, remaining = None, resetTime = Some window\<rparr>
          else bindE (rl_put (rateKey clientIP) (toString (js_add count (Num 1))) (Some window))
                 (\<lambda>_. returnE \<lparr>allowed = True,
                         remaining = Some (js_sub (js_sub (Num (int limit)) count) (Num 1)),
                         resetTime = None\<rparr>))"

text \<open>The \<^verbatim>\<open>catch\<close> block answers \<^verbatim>\<open>{ allowed: true }\<close>.\<close>

definition checkRateLimit :: "string \<Rightarrow> env \<Rightarrow> RateLimitResult \<times> env" where
  "checkRateLimit clientIP e =
     (case checkRateLimit_try clientIP e of
        (Inl x, e1) \<Rightarrow> (\<lparr>allowed = True, remaining = None, resetTime = None\<rparr>, e1)
      | (Inr r, e1) \<Rightarrow> (r, e1))"

section \<open>Input validation\<close>

text \<open>
  The input of \<^verbatim>\<open>sendMessage\<close> as GraphQL delivers it: \<^verbatim>\<open>message\<close> and
  \<^verbatim>\<open>conversationId\<close> are non-null strings; \<^verbatim>\<open>model\<close>, \<^verbatim>\<open>temperature\<close> (a finite
  Float) and \<^verbatim>\<open>maxTokens\<close> (an Int) may be \<^verbatim>\<open>null\<close>.
\<close>

record SendMessageInput =
  in_message :: string
  in_conversationId :: string
  in_model :: "string option"
  in_temperature :: "real option"
  in_maxTokens :: "int option"

datatype ValidationError =
    EmptyMessage
  | MessageTooLong
  | MissingConversationId
  | TemperatureOutOfRange
  | MaxTokensOutOfRange

datatype Validation = Valid | Invalid ValidationError

text \<open>
  \<^verbatim>\<open>input.temperature && (...)\<close>: \<^verbatim>\<open>null\<close> and \<open>0\<close> are falsy, and the range test
  is skipped for them; the same holds for \<^verbatim>\<open>input.maxTokens\<close>.
\<close>

definition truthy_real :: "real option \<Rightarrow> bool" where
  "truthy_real x = (case x of None \<Rightarrow> False | Some t \<Rightarrow> t \<noteq> 0)"

definition truthy_int :: "int option \<Rightarrow> bool" where
  "truthy_int x = (case x of None \<Rightarrow> False | Some n \<Rightarrow> n \<noteq> 0)"

definition validateMessageInput :: "SendMessageInput \<Rightarrow> Validation" where
  "validateMessageInput input =
     (if in_message input = [] then Invalid EmptyMessage
      else if length (in_message input) > 2000 then Invalid MessageTooLong
      else if in_conversationId input = [] then Invalid MissingConversationId
      else if truthy_real (in_temperature input) \<and>
              (the (in_temperature input) < 0 \<or> the (in_temperature input) > 2)
           then Invalid TemperatureOutOfRange
      else if truthy_int (in_maxTokens input) \<and>
              (the (in_maxTokens input) < 1 \<or> the (in_maxTokens input) > 4000)
           then Invalid MaxTokensOutOfRange
      else Valid)"

text \<open>\<^verbatim>\<open>Math.ceil(text.length / 1.5)\<close>.\<close>

definition estimateTokens :: "string \<Rightarrow> int" where
  "estimateTokens text_in = \<lceil>real (length text_in) / 1.5\<rceil>"

section \<open>ModelGateway\<close>

text \<open>
  The system instruction of the prompt, a fixed literal of the source, given here by
  its UTF-8 bytes.
\<close>

definition system_instruction :: string where
  "system_instruction =
     [CHR 0xE4, CHR 0xBD, CHR 0xA0, CHR 0xE6, CHR 0x98, CHR 0xAF, CHR 0xE4, CHR 0xB8,
      CHR 0x80, CHR 0xE4, CHR 0xB8, CHR 0xAA, CHR 0xE5, CHR 0x8F, CHR 0x8B, CHR 0xE5,
      CHR 0x96, CHR 0x84, CHR 0xE3, CHR 0x80, CHR 0x81, CHR 0xE6, CHR 0x9C, CHR 0x89,
      CHR 0xE5, CHR 0xB8, CHR 0xAE, CHR 0xE5, CHR 0x8A, CHR 0xA9, CHR 0xE7, CHR 0x9A,
      CHR 0x84, CHR ''A'', CHR ''I'', CHR 0xE5, CHR 0x8A, CHR 0xA9, CHR 0xE6, CHR 0x89,
      CHR 0x8B, CHR 0xE3, CHR 0x80, CHR 0x82, CHR 0xE8, CHR 0xAF, CHR 0xB7, CHR 0xE7,
      CHR 0x94, CHR 0xA8, CHR 0xE4, CHR 0xB8, CHR 0xAD, CHR 0xE6, CHR 0x96, CHR 0x87,
      CHR 0xE5, CHR 0x9B, CHR 0x9E, CHR 0xE7, CHR 0xAD, CHR 0x94, CHR 0xE9, CHR 0x97,
      CHR 0xAE, CHR 0xE9, CHR 0xA2, CHR 0x98, CHR 0xEF, CHR 0xBC, CHR 0x8C, CHR 0xE4,
      CHR 0xBF, CHR 0x9D, CHR 0xE6, CHR 0x8C, CHR 0x81, CHR 0xE5, CHR 0x9B, CHR 0x9E,
      CHR 0xE7, CHR 0xAD, CHR 0x94, CHR 0xE5, CHR 0x87, CHR 0x86, CHR 0xE7, CHR 0xA1,
      CHR 0xAE, CHR 0xE3, CHR 0x80, CHR 0x81, CHR 0xE7, CHR 0xAE, CHR 0x80, CHR 0xE6,
      CHR 0xB4, CHR 0x81, CHR 0xE4, CHR 0xB8, CHR 0x94, CHR 0xE6, CHR 0x9C, CHR 0x89,
      CHR 0xE7, CHR 0x94, CHR 0xA8, CHR 0xE3, CHR 0x80, CHR 0x82]"

definition system_message :: ChatMessage where
  "system_message = \<lparr>cm_role = ''system'', cm_content = system_instruction\<rparr>"

definition toLowerCase :: "MessageRole \<Rightarrow> string" where
  "toLowerCase r = (case r of USER \<Rightarrow> ''user'' | ASSISTANT \<Rightarrow> ''assistant'' | SYSTEM \<Rightarrow> ''system'')"

text \<open>\<^verbatim>\<open>history.slice(-20)\<close>: the last 20 elements, all of them when there are fewer.\<close>

definition slice_last :: "nat \<Rightarrow> 'a list \<Rightarrow> 'a list" where
  "slice_last n xs = drop (length xs - n) xs"

definition build_messages :: "string \<Rightarrow> Message list \<Rightarrow> ChatMessage list" where
  "build_messages message_in history =
     [system_message]
     @ map (\<lambda>msg. \<lparr>cm_role = toLowerCase (role msg), cm_content = content msg\<rparr>)
         (slice_last 20 history)
     @ [\<lparr>cm_role = ''user'', cm_content = message_in\<rparr>]"

text \<open>
  \<^verbatim>\<open>callDeepSeekAPI\<close>. The API key falls back to a non-empty literal, so the test
  \<^verbatim>\<open>!apiKey\<close> never fires. The default values of the parameters apply to
  \<^verbatim>\<open>undefined\<close> only, which a GraphQL input never holds.
\<close>

definition callDeepSeekAPI ::
  "string \<Rightarrow> Message list \<Rightarrow> string option \<Rightarrow> real option \<Rightarrow> int option
     \<Rightarrow> (string \<times> Usage option) io" where
  "callDeepSeekAPI message_in history model_in temperature maxTokens e =
     (let requestBody = \<lparr>rb_model = model_in,
                          rb_messages = build_messages message_in history,
                          rb_temperature = temperature,
                          rb_max_tokens = maxTokens,
                          rb_stream = False\<rparr>;
          e1 = record_event (Fetch requestBody) e
      in case upstream e requestBody of
           FetchThrows \<Rightarrow> (Inl NetworkError, e1)
         | NotOk status \<Rightarrow> (Inl (UpstreamError status), e1)
         | NoChoices \<Rightarrow> (Inl UpstreamFormatError, e1)
         | Completion c u \<Rightarrow> (Inr (c, u), e1))"

section \<open>ChatService\<close>

record TokenUsage =
  promptTokens :: int
  completionTokens :: int
  totalTokens :: int

text \<open>
  The three failure texts of \<^verbatim>\<open>sendMessage\<close>: too many requests (with the reset
  time of the limiter), the text of the validation, and service unavailable (the
  \<^verbatim>\<open>catch\<close> block).
\<close>

datatype SendError =
    TooManyRequests "nat option"
  | InvalidInput ValidationError
  | ServiceUnavailable

record SendMessageResponse =
  success :: bool
  message :: "Message option"
  failure :: "SendError option"
  usage :: "TokenUsage option"

text \<open>
  What the runtime hands to one call of \<^verbatim>\<open>sendMessage\<close>: the two results of
  \<^verbatim>\<open>generateMessageId()\<close> and the two readings of \<^verbatim>\<open>new Date()\<close>.
\<close>

record Runtime =
  user_id :: string
  user_time :: int
  ai_id :: string
  ai_time :: int

definition failed :: "SendError \<Rightarrow> SendMessageResponse" where
  "failed x = \<lparr>success = False, message = None, failure = Some x, usage = None\<rparr>"

text \<open>\<^verbatim>\<open>deepseekResponse.usage?.completion_tokens || 0\<close>.\<close>

definition completion_or_zero :: "Usage option \<Rightarrow> int" where
  "completion_or_zero u =
     (case u of
        None \<Rightarrow> 0
      | Some x \<Rightarrow> (if completion_tokens x = 0 then 0 else completion_tokens x))"

definition userMessage :: "SendMessageInput \<Rightarrow> Runtime \<Rightarrow> Message" where
  "userMessage input rt =
     \<lparr>msg_id = user_id rt, content = in_message input, role = USER,
      timestamp = user_time rt, conversationId = in_conversationId input,
      model = None, tokens = estimateTokens (in_message input)\<rparr>"

definition aiMessage :: "SendMessageInput \<Rightarrow> Runtime \<Rightarrow> string \<times> Usage option \<Rightarrow> Message" where
  "aiMessage input rt deepseekResponse =
     \<lparr>msg_id = ai_id rt, content = fst deepseekResponse, role = ASSISTANT,
      timestamp = ai_time rt, conversationId = in_conversationId input,
      model = in_model input, tokens = completion_or_zero (snd deepseekResponse)\<rparr>"

text \<open>The part of \<^verbatim>\<open>sendMessage\<close> after the validation, inside the \<^verbatim>\<open>try\<close>.\<close>

definition sendMessage_try :: "SendMessageInput \<Rightarrow> Runtime \<Rightarrow> SendMessageResponse io" where
  "sendMessage_try input rt =
     bindE (getConversationMessages (in_conversationId input)) (\<lambda>conversationHistory.
     bindE (saveMessage (userMessage input rt)) (\<lambda>_.
     bindE (callDeepSeekAPI (in_message input) conversationHistory (in_model input)
              (in_temperature input) (in_maxTokens input)) (\<lambda>deepseekResponse.
     bindE (saveMessage (aiMessage input rt deepseekResponse)) (\<lambda>_.
       returnE \<lparr>success = True,
                message = Some (aiMessage input rt deepseekResponse),
                failure = None,
                usage = map_option
                  (\<lambda>u. \<lparr>promptTokens = prompt_tokens u,
                        completionTokens = completion_tokens u,
                        totalTokens = total_tokens u\<rparr>)
                  (snd deepseekResponse)\<rparr>))))"

text \<open>
  \<^verbatim>\<open>sendMessage\<close>: the limiter first, the validation next, then the store and the
  upstream call. The header \<^verbatim>\<open>CF-Connecting-IP\<close> may be missing.
\<close>

definition sendMessage ::
  "string option \<Rightarrow> SendMessageInput \<Rightarrow> Runtime \<Rightarrow> env \<Rightarrow> SendMessageResponse \<times> env" where
  "sendMessage header input rt e =
     (let clientIP = (case header of
                        None \<Rightarrow> ''unknown''
                      | Some ip \<Rightarrow> (if ip = [] then ''unknown'' else ip));
          rateLimitCheck = checkRateLimit clientIP e
      in if \<not> allowed (fst rateLimitCheck)
         then (failed (TooManyRequests (resetTime (fst rateLimitCheck))), snd rateLimitCheck)
         else (case validateMessageInput input of
                 Invalid x \<Rightarrow> (failed (InvalidInput x), snd rateLimitCheck)
               | Valid \<Rightarrow>
                   (case sendMessage_try input rt (snd rateLimitCheck) of
                      (Inl x, e1) \<Rightarrow> (failed ServiceUnavailable, e1)
                    | (Inr r, e1) \<Rightarrow> (r, e1))))"

section \<open>Notions used in the statements\<close>

subsection \<open>Traces\<close>

text \<open>The request bodies that a trace sent upstream, in order.\<close>

definition fetched :: "event list \<Rightarrow> RequestBody list" where
  "fetched evs = concat (map (\<lambda>ev. case ev of Fetch b \<Rightarrow> [b] | _ \<Rightarrow> []) evs)"

text \<open>The events that a run from \<open>e\<close> to \<open>e1\<close> added to the trace.\<close>

definition new_events :: "env \<Rightarrow> env \<Rightarrow> event list" where
  "new_events e e1 = drop (length (trace e)) (trace e1)"

text \<open>
  The request that \<^verbatim>\<open>callDeepSeekAPI\<close> builds from an input and a history.
\<close>

definition request_of :: "SendMessageInput \<Rightarrow> Message list \<Rightarrow> RequestBody" where
  "request_of input history =
     \<lparr>rb_model = in_model input,
      rb_messages = build_messages (in_message input) history,
      rb_temperature = in_temperature input,
      rb_max_tokens = in_maxTokens input,
      rb_stream = False\<rparr>"

text \<open>A stored message as the prompt carries it.\<close>

definition chat_of :: "Message \<Rightarrow> ChatMessage" where
  "chat_of msg = \<lparr>cm_role = toLowerCase (role msg), cm_content = content msg\<rparr>"

subsection \<open>The conversation store\<close>

text \<open>The message stored under the record key of an id, when there is one.\<close>

definition stored_message :: "json kv \<Rightarrow> nat \<Rightarrow> string \<Rightarrow> string \<Rightarrow> Message option" where
  "stored_message s t c i =
     (case visible s t (msgKey c i) of Some (JMessage m) \<Rightarrow> Some m | _ \<Rightarrow> None)"

text \<open>
  What a successful \<^verbatim>\<open>saveMessage\<close> leaves in the store, where \<open>ids0\<close> is the id
  list it read: the list key, the evicted record, the new record, the rest.
\<close>

definition after_save :: "Message \<Rightarrow> string list \<Rightarrow> json kv \<Rightarrow> nat \<Rightarrow> string \<Rightarrow> json option" where
  "after_save m ids0 s t k =
     (if k = convKey (conversationId m)
      then Some (JIds (if length ids0 \<ge> 100 then tl (ids0 @ [msg_id m]) else ids0 @ [msg_id m]))
      else if length ids0 \<ge> 100 \<and> k = msgKey (conversationId m) (hd (ids0 @ [msg_id m])) then None
      else if k = msgKey (conversationId m) (msg_id m) then Some (JMessage m)
      else visible s t k)"

text \<open>
  The store answers, and what it holds for the conversation is an id list, or nothing,
  and no array under the record key of a listed id.
\<close>

definition store_ready :: "env \<Rightarrow> string \<Rightarrow> bool" where
  "store_ready e c \<longleftrightarrow>
     \<not> get_fails (CHAT_DB e) \<and> \<not> put_fails (CHAT_DB e) \<and> \<not> delete_fails (CHAT_DB e)
     \<and> (case visible (CHAT_DB e) (now e) (convKey c) of
          None \<Rightarrow> True
        | Some (JMessage _) \<Rightarrow> False
        | Some (JIds ids) \<Rightarrow>
            (\<forall>i\<in>set ids. case visible (CHAT_DB e) (now e) (msgKey c i) of
                             Some (JIds _) \<Rightarrow> False | _ \<Rightarrow> True))"

text \<open>
  Appending a sequence of messages, one \<^verbatim>\<open>saveMessage\<close> after the other.
\<close>

fun append_all :: "Message list \<Rightarrow> unit io" where
  "append_all [] = returnE ()"
| "append_all (m # ms) = bindE (saveMessage m) (\<lambda>_. append_all ms)"

text \<open>
  The last 100 elements of a sequence, and the ones before them.
\<close>

definition kept :: "'a list \<Rightarrow> 'a list" where
  "kept xs = drop (length xs - 100) xs"

definition evicted :: "'a list \<Rightarrow> 'a list" where
  "evicted xs = take (length xs - 100) xs"

text \<open>
  The state of the store after the messages \<open>old\<close> have been appended to a new
  conversation: the store answers, the id list names the last 100 messages in order,
  each of them has its record, and no evicted message has one.
\<close>

definition log_inv :: "string \<Rightarrow> env \<Rightarrow> Message list \<Rightarrow> bool" where
  "log_inv c e old \<longleftrightarrow>
     \<not> put_fails (CHAT_DB e) \<and> \<not> get_fails (CHAT_DB e) \<and> \<not> delete_fails (CHAT_DB e)
     \<and> parse_ids (visible (CHAT_DB e) (now e) (convKey c)) = Inr (map msg_id (kept old))
     \<and> (\<forall>m\<in>set (kept old). visible (CHAT_DB e) (now e) (msgKey c (msg_id m)) = Some (JMessage m))
     \<and> (\<forall>m\<in>set (evicted old). visible (CHAT_DB e) (now e) (msgKey c (msg_id m)) = None)"

subsection \<open>The rate limiter\<close>

text \<open>
  The identity of the client, \<^verbatim>\<open>request.headers.get('CF-Connecting-IP') || 'unknown'\<close>,
  and the count that \<^verbatim>\<open>checkRateLimit\<close> reads for an identity.
\<close>

definition clientIP_of :: "string option \<Rightarrow> string" where
  "clientIP_of header =
     (case header of None \<Rightarrow> ''unknown'' | Some ip \<Rightarrow> (if ip = [] then ''unknown'' else ip))"

definition stored_count :: "env \<Rightarrow> string \<Rightarrow> jsnum" where
  "stored_count e ip =
     (case visible (RATE_LIMIT e) (now e) (rateKey ip) of
        None \<Rightarrow> Num 0
      | Some s \<Rightarrow> (if s = [] then Num 0 else parseInt s))"

text \<open>
  A client that calls \<^verbatim>\<open>checkRateLimit\<close> once at each of the instants \<open>ts\<close>.
\<close>

fun run_checks :: "string \<Rightarrow> nat list \<Rightarrow> env \<Rightarrow> RateLimitResult list \<times> env" where
  "run_checks ip [] e = ([], e)"
| "run_checks ip (t # ts) e =
     (let r = checkRateLimit ip (e\<lparr>now := t\<rparr>);
          rs = run_checks ip ts (snd r)
      in (fst r # fst rs, snd rs))"

text \<open>
  The time for which the entry of a key is still live at the instant \<open>t\<close>.
\<close>

definition remaining_lifetime :: "'v kv \<Rightarrow> nat \<Rightarrow> string \<Rightarrow> nat option" where
  "remaining_lifetime s t k =
     (case entries s k of
        Some (v, Some x) \<Rightarrow> (if t < x then Some (x - t) else None)
      | _ \<Rightarrow> None)"

text \<open>
  The text of the counter after \<open>c\<close> allowed requests; no request, no entry.
\<close>

definition counter_text :: "nat \<Rightarrow> string option" where
  "counter_text c = (if c = 0 then None else Some (toString (Num (int c))))"

text \<open>The characters \<^verbatim>\<open>0\<close> to \<^verbatim>\<open>9\<close>.\<close>

definition is_decimal :: "char \<Rightarrow> bool" where
  "is_decimal c = (48 \<le> (of_char c :: nat) \<and> (of_char c :: nat) \<le> 57)"

subsection \<open>Concrete inputs\<close>

text \<open>
  An empty namespace that answers; an environment with two of them, whose upstream
  reports no usage; the same with a counter store whose \<^verbatim>\<open>get\<close>, or whose
  \<^verbatim>\<open>put\<close>, fails; and messages numbered in the order of their timestamps.
\<close>

definition kv_empty :: "'v kv" where
  "kv_empty = \<lparr>entries = Map.empty, get_fails = False, put_fails = False, delete_fails = False\<rparr>"

definition env0 :: env where
  "env0 = \<lparr>CHAT_DB = kv_empty, RATE_LIMIT = kv_empty, now = 0,
           upstream = (\<lambda>_. Completion ''hi there'' None), trace = []\<rparr>"

definition env_get_down :: env where
  "env_get_down = env0\<lparr>RATE_LIMIT := kv_empty\<lparr>get_fails := True\<rparr>\<rparr>"

definition env_put_down :: env where
  "env_put_down = env0\<lparr>RATE_LIMIT := kv_empty\<lparr>put_fails := True\<rparr>\<rparr>"

definition example_message :: "nat \<Rightarrow> Message" where
  "example_message n =
     \<lparr>msg_id = ''m'' @ digits n, content = ''text'', role = USER, timestamp = int n,
      conversationId = ''conv_abc'', model = None, tokens = 3\<rparr>"

text \<open>
  A store whose conversation \<^verbatim>\<open>conv_abc\<close> lists three ids, the last of them with no
  record; the listed order is not the order of the timestamps.
\<close>

definition env_gap :: env where
  "env_gap = env0\<lparr>CHAT_DB := kv_empty\<lparr>entries :=
     [convKey ''conv_abc'' \<mapsto> (JIds [''m1'', ''m0'', ''m7''], None),
      msgKey ''conv_abc'' ''m0'' \<mapsto> (JMessage (example_message 0), None),
      msgKey ''conv_abc'' ''m1'' \<mapsto> (JMessage (example_message 1), None)]\<rparr>\<rparr>"

text \<open>A well-formed input, the values of the runtime, and an upstream that reports usage.\<close>

definition input_ok :: SendMessageInput where
  "input_ok = \<lparr>in_message = ''hello'', in_conversationId = ''conv_abc'',
               in_model = Some ''deepseek-chat'', in_temperature = Some 0.7,
               in_maxTokens = Some 1000\<rparr>"

definition runtime0 :: Runtime where
  "runtime0 = \<lparr>user_id = ''msg_u'', user_time = 1000, ai_id = ''msg_a'', ai_time = 2000\<rparr>"

definition env_usage :: env where
  "env_usage = env0\<lparr>upstream := (\<lambda>_. Completion ''hi there''
     (Some \<lparr>prompt_tokens = 5, completion_tokens = 3, total_tokens = 8\<rparr>))\<rparr>"

section \<open>Properties\<close>

subsection \<open>Basic facts\<close>

lemma fetched_append: "fetched (xs @ ys) = fetched xs @ fetched ys"
  by (simp add: fetched_def)

lemma convKey_neq_msgKey: "convKey c \<noteq> msgKey c' i"
  by (simp add: convKey_def msgKey_def)

lemma msgKey_inj: "msgKey c i = msgKey c j \<longleftrightarrow> i = j"
  by (simp add: msgKey_def)

subsection \<open>ModelGateway: the prompt\<close>

lemma callDeepSeekAPI_trace:
  "trace (snd (callDeepSeekAPI msg history mo t mt e)) =
     trace e @ [Fetch \<lparr>rb_model = mo, rb_messages = build_messages msg history,
                       rb_temperature = t, rb_max_tokens = mt, rb_stream = False\<rparr>]"
  by (simp add: callDeepSeekAPI_def record_event_def Let_def split: Reply.splits)

text \<open>
  C3, as the code has it. The call sends one request whose messages are the system
  instruction, then the last 20 messages of the history in their order, then the
  current user message: at most 22 messages. For a history of 25 messages these are the
  system instruction, the messages 6 to 25 of the history and the user message, 22
  messages in all (not 23).
\<close>

theorem callDeepSeekAPI_prompt:
  "fetched (trace (snd (callDeepSeekAPI msg history mo t mt e))) =
     fetched (trace e) @
       [\<lparr>rb_model = mo,
         rb_messages = system_message # map chat_of (drop (length history - 20) history)
                         @ [\<lparr>cm_role = ''user'', cm_content = msg\<rparr>],
         rb_temperature = t, rb_max_tokens = mt, rb_stream = False\<rparr>]
   \<and> length (build_messages msg history) = min 20 (length history) + 2
   \<and> (length history = 25 \<longrightarrow>
        build_messages msg history =
          system_message # map chat_of (drop 5 history) @ [\<lparr>cm_role = ''user'', cm_content = msg\<rparr>]
        \<and> length (build_messages msg history) = 22)"
proof -
  have b: "build_messages msg history =
      system_message # map chat_of (drop (length history - 20) history)
        @ [\<lparr>cm_role = ''user'', cm_content = msg\<rparr>]"
    by (simp add: build_messages_def slice_last_def chat_of_def)
  have l: "length (build_messages msg history) = min 20 (length history) + 2"
    unfolding b by (simp add: min_def)
  show ?thesis
    using l by (auto simp: callDeepSeekAPI_trace fetched_append fetched_def b)
qed

theorem callDeepSeekAPI_prompt_witness:
  "length (replicate 25 (example_message 0)) = 25 \<and>
   length (build_messages ''hello'' (replicate 25 (example_message 0))) = 22"
  using callDeepSeekAPI_prompt [of "''hello''" "replicate 25 (example_message 0)" None None None env0]
  by simp

text \<open>
  C3 as stated fails: with a history of 25 messages the one request sent upstream
  carries 22 messages.
\<close>

theorem callDeepSeekAPI_not_23:
  "map (\<lambda>b. length (rb_messages b))
     (fetched (trace (snd (callDeepSeekAPI ''hello'' (replicate 25 (example_message 0))
        None None None env0)))) = [22]"
  by (simp add: callDeepSeekAPI_trace fetched_def env0_def build_messages_def slice_last_def)

subsection \<open>ConversationStore: reading\<close>

text \<open>
  C9. When the store answers and holds no id list for the conversation,
  \<^verbatim>\<open>getConversationMessages\<close> returns the empty sequence and no error.
\<close>

theorem read_unknown_conversation:
  assumes "\<not> get_fails (CHAT_DB e)" and "visible (CHAT_DB e) (now e) (convKey c) = None"
  shows "fst (getConversationMessages c e) = Inr []"
  using assms
  by (simp add: getConversationMessages_def bindE_def db_get_def kv_get_def returnE_def)

theorem read_unknown_conversation_witness:
  "\<not> get_fails (CHAT_DB env0) \<and> visible (CHAT_DB env0) (now env0) (convKey ''conv_abc'') = None
   \<and> fst (getConversationMessages ''conv_abc'' env0) = Inr []"
proof -
  have a: "\<not> get_fails (CHAT_DB env0)" by (simp add: env0_def kv_empty_def)
  have b: "visible (CHAT_DB env0) (now env0) (convKey ''conv_abc'') = None"
    by (simp add: env0_def kv_empty_def visible_def)
  show ?thesis using a b read_unknown_conversation [OF a b] by simp
qed

subsection \<open>RateLimiter: failing open\<close>

text \<open>
  C6. When the \<^verbatim>\<open>get\<close> of the counter store fails, or its \<^verbatim>\<open>put\<close> fails and the
  check reached the \<^verbatim>\<open>put\<close>, \<^verbatim>\<open>checkRateLimit\<close> answers \<open>allowed = true\<close>.
\<close>

theorem checkRateLimit_fails_open:
  assumes "get_fails (RATE_LIMIT e) \<or>
           (put_fails (RATE_LIMIT e) \<and>
            KvPut RateLimit (rateKey ip) \<in> set (new_events e (snd (checkRateLimit ip e))))"
  shows "allowed (fst (checkRateLimit ip e))"
  using assms
  by (auto simp: checkRateLimit_def checkRateLimit_try_def bindE_def rl_get_def rl_put_def
      kv_get_def kv_put_def returnE_def record_event_def new_events_def Let_def
      split: if_splits)

theorem checkRateLimit_fails_open_witness:
  "get_fails (RATE_LIMIT env_get_down)
   \<and> allowed (fst (checkRateLimit ''10.0.0.1'' env_get_down))
   \<and> put_fails (RATE_LIMIT env_put_down)
   \<and> KvPut RateLimit (rateKey ''10.0.0.1'')
       \<in> set (new_events env_put_down (snd (checkRateLimit ''10.0.0.1'' env_put_down)))
   \<and> allowed (fst (checkRateLimit ''10.0.0.1'' env_put_down))"
proof -
  have a: "get_fails (RATE_LIMIT env_get_down)"
    by (simp add: env_get_down_def)
  have b: "put_fails (RATE_LIMIT env_put_down)"
    by (simp add: env_put_down_def)
  have c: "KvPut RateLimit (rateKey ''10.0.0.1'')
       \<in> set (new_events env_put_down (snd (checkRateLimit ''10.0.0.1'' env_put_down)))"
    by (simp add: env_put_down_def env0_def kv_empty_def checkRateLimit_def
        checkRateLimit_try_def bindE_def rl_get_def rl_put_def kv_get_def kv_put_def
        visible_def js_ge_def limit_def record_event_def new_events_def returnE_def Let_def)
  show ?thesis
    using a b c checkRateLimit_fails_open [of env_get_down "''10.0.0.1''"]
      checkRateLimit_fails_open [of env_put_down "''10.0.0.1''"]
    by simp
qed

subsection \<open>The store operations\<close>

lemma db_get_run:
  "db_get k e = (kv_get (CHAT_DB e) (now e) k, e\<lparr>trace := trace e @ [KvGet ChatDb k]\<rparr>)"
  by (simp add: db_get_def record_event_def)

lemma db_get_ok:
  "\<not> get_fails (CHAT_DB e) \<Longrightarrow>
   db_get k e = (Inr (visible (CHAT_DB e) (now e) k), e\<lparr>trace := trace e @ [KvGet ChatDb k]\<rparr>)"
  by (simp add: db_get_def record_event_def kv_get_def)

lemma db_delete_ok:
  "\<not> delete_fails (CHAT_DB e) \<Longrightarrow>
   db_delete k e =
     (Inr (), e\<lparr>trace := trace e @ [KvDelete ChatDb k],
               CHAT_DB := (CHAT_DB e)\<lparr>entries := (entries (CHAT_DB e))(k := None)\<rparr>\<rparr>)"
  by (simp add: db_delete_def record_event_def kv_delete_def)

lemma db_put_ok:
  "\<not> put_fails (CHAT_DB e) \<Longrightarrow>
   db_put k v e =
     (Inr (), e\<lparr>trace := trace e @ [KvPut ChatDb k],
               CHAT_DB := (CHAT_DB e)\<lparr>entries := (entries (CHAT_DB e))(k \<mapsto> (v, None))\<rparr>\<rparr>)"
  by (simp add: db_put_def record_event_def kv_put_def)

lemma visible_upd:
  "visible (s\<lparr>entries := (entries s)(k \<mapsto> (v, None))\<rparr>) t k' =
     (if k' = k then Some v else visible s t k')"
  by (simp add: visible_def)

lemma visible_del:
  "visible (s\<lparr>entries := (entries s)(k := None)\<rparr>) t k' =
     (if k' = k then None else visible s t k')"
  by (simp add: visible_def)

lemma collect_db: "CHAT_DB (snd (collect c ids acc e)) = CHAT_DB e \<and> now (snd (collect c ids acc e)) = now e"
proof (induction ids arbitrary: acc e)
  case Nil
  show ?case by (simp add: returnE_def)
next
  case (Cons i ids)
  show ?case
    by (simp add: bindE_def db_get_run Cons throwE_def split: sum.splits option.splits json.splits)
qed

lemma collect_ok:
  assumes "\<not> get_fails (CHAT_DB e)"
    and "\<forall>i\<in>set ids. \<forall>l. visible (CHAT_DB e) (now e) (msgKey c i) \<noteq> Some (JIds l)"
  shows "fst (collect c ids acc e) =
           Inr (acc @ List.map_filter (stored_message (CHAT_DB e) (now e) c) ids)"
  using assms
proof (induction ids arbitrary: acc e)
  case Nil
  show ?case by (simp add: returnE_def)
next
  case (Cons i ids)
  let ?e1 = "e\<lparr>trace := trace e @ [KvGet ChatDb (msgKey c i)]\<rparr>"
  have ih: "fst (collect c ids acc' ?e1) =
           Inr (acc' @ List.map_filter (stored_message (CHAT_DB e) (now e) c) ids)" for acc'
    using Cons.IH [of ?e1 acc'] Cons.prems by simp
  have sm: "stored_message (CHAT_DB e) (now e) c i =
      (case visible (CHAT_DB e) (now e) (msgKey c i) of Some (JMessage m) \<Rightarrow> Some m | _ \<Rightarrow> None)"
    by (simp add: stored_message_def)
  show ?case
    using Cons.prems
    by (cases "visible (CHAT_DB e) (now e) (msgKey c i)")
       (auto simp: bindE_def db_get_ok ih sm split: json.splits)
qed

lemma delete_all_ok:
  assumes "\<not> delete_fails (CHAT_DB e)"
  shows "fst (delete_all c ids e) = Inr ()
       \<and> now (snd (delete_all c ids e)) = now e
       \<and> get_fails (CHAT_DB (snd (delete_all c ids e))) = get_fails (CHAT_DB e)
       \<and> delete_fails (CHAT_DB (snd (delete_all c ids e))) = delete_fails (CHAT_DB e)
       \<and> (\<forall>t k. visible (CHAT_DB (snd (delete_all c ids e))) t k =
             (if k \<in> msgKey c ` set ids then None else visible (CHAT_DB e) t k))"
  using assms
proof (induction ids arbitrary: e)
  case Nil
  show ?case by (simp add: returnE_def)
next
  case (Cons i ids)
  let ?e1 = "e\<lparr>trace := trace e @ [KvDelete ChatDb (msgKey c i)],
               CHAT_DB := (CHAT_DB e)\<lparr>entries := (entries (CHAT_DB e))(msgKey c i := None)\<rparr>\<rparr>"
  have step: "delete_all c (i # ids) e = delete_all c ids ?e1"
    using Cons.prems by (simp add: bindE_def db_delete_ok)
  have "\<not> delete_fails (CHAT_DB ?e1)" using Cons.prems by simp
  from Cons.IH [OF this] show ?case
    unfolding step by (auto simp: visible_del)
qed

subsection \<open>Saving a message\<close>

lemma saveMessage_frame:
  "now (snd (saveMessage m e)) = now e
   \<and> upstream (snd (saveMessage m e)) = upstream e
   \<and> RATE_LIMIT (snd (saveMessage m e)) = RATE_LIMIT e
   \<and> get_fails (CHAT_DB (snd (saveMessage m e))) = get_fails (CHAT_DB e)
   \<and> put_fails (CHAT_DB (snd (saveMessage m e))) = put_fails (CHAT_DB e)
   \<and> delete_fails (CHAT_DB (snd (saveMessage m e))) = delete_fails (CHAT_DB e)"
  by (simp add: saveMessage_def bindE_def db_put_def db_get_def db_delete_def kv_put_def
      kv_get_def kv_delete_def record_event_def throwE_def Let_def
      split: sum.splits prod.splits if_splits)

lemma saveMessage_Inr:
  assumes "fst (saveMessage m e) = Inr ()"
  shows "\<exists>ids0. parse_ids (visible (CHAT_DB e) (now e) (convKey (conversationId m))) = Inr ids0
           \<and> (\<forall>t k. visible (CHAT_DB (snd (saveMessage m e))) t k
                  = after_save m ids0 (CHAT_DB e) t k)"
proof -
  have pf: "\<not> put_fails (CHAT_DB e)"
    using assms by (auto simp: saveMessage_def bindE_def db_put_def kv_put_def split: if_splits)
  let ?e1 = "e\<lparr>trace := trace e @ [KvPut ChatDb (msgKey (conversationId m) (msg_id m))],
               CHAT_DB := (CHAT_DB e)\<lparr>entries := (entries (CHAT_DB e))
                 (msgKey (conversationId m) (msg_id m) \<mapsto> (JMessage m, None))\<rparr>\<rparr>"
  have gf: "\<not> get_fails (CHAT_DB e)"
    using assms pf
    by (auto simp: saveMessage_def bindE_def db_put_ok db_get_def kv_get_def split: if_splits)
  have v1: "visible (CHAT_DB ?e1) (now ?e1) (convKey (conversationId m))
        = visible (CHAT_DB e) (now e) (convKey (conversationId m))"
    by (simp add: visible_def convKey_neq_msgKey)
  obtain ids0 where p: "parse_ids (visible (CHAT_DB e) (now e) (convKey (conversationId m))) = Inr ids0"
    using assms pf gf
    by (cases "parse_ids (visible (CHAT_DB e) (now e) (convKey (conversationId m)))")
       (auto simp: saveMessage_def bindE_def db_put_ok db_get_ok visible_def convKey_neq_msgKey throwE_def)
  have "visible (CHAT_DB (snd (saveMessage m e))) t k = after_save m ids0 (CHAT_DB e) t k" for t k
  proof (cases "length ids0 \<ge> 100")
    case True
    then have df: "\<not> delete_fails (CHAT_DB e)"
      using assms pf gf p
      by (auto simp: saveMessage_def bindE_def db_put_ok db_get_ok visible_def convKey_neq_msgKey db_delete_def kv_delete_def Let_def
          split: if_splits)
    show ?thesis
      using True pf gf p df
      by (simp add: saveMessage_def bindE_def db_put_ok db_get_ok db_delete_ok after_save_def Let_def
          visible_def convKey_neq_msgKey)
  next
    case False
    then show ?thesis
      using pf gf p
      by (simp add: saveMessage_def bindE_def db_put_ok db_get_ok after_save_def Let_def
          visible_def convKey_neq_msgKey)
  qed
  with p show ?thesis by blast
qed

lemma saveMessage_succeeds:
  assumes "\<not> put_fails (CHAT_DB e)" "\<not> get_fails (CHAT_DB e)" "\<not> delete_fails (CHAT_DB e)"
    and "parse_ids (visible (CHAT_DB e) (now e) (convKey (conversationId m))) = Inr ids0"
  shows "fst (saveMessage m e) = Inr ()"
proof -
  let ?e1 = "e\<lparr>trace := trace e @ [KvPut ChatDb (msgKey (conversationId m) (msg_id m))],
               CHAT_DB := (CHAT_DB e)\<lparr>entries := (entries (CHAT_DB e))
                 (msgKey (conversationId m) (msg_id m) \<mapsto> (JMessage m, None))\<rparr>\<rparr>"
  have v1: "visible (CHAT_DB ?e1) (now ?e1) (convKey (conversationId m))
        = visible (CHAT_DB e) (now e) (convKey (conversationId m))"
    by (simp add: visible_def convKey_neq_msgKey)
  show ?thesis
    using assms
    by (simp add: saveMessage_def bindE_def db_put_ok db_get_ok visible_def convKey_neq_msgKey db_delete_ok Let_def)
qed

subsection \<open>ConversationStore: missing records and clearing\<close>

lemma bindE_fst_Inr: "fst (f e) = Inr a \<Longrightarrow> bindE f g e = g a (snd (f e))"
  by (cases "f e") (simp add: bindE_def)

lemma bindE_fst_Inl: "fst (f e) = Inl x \<Longrightarrow> bindE f g e = (Inl x, snd (f e))"
  by (cases "f e") (simp add: bindE_def)

lemma bindE_db_get:
  "\<not> get_fails (CHAT_DB e) \<Longrightarrow>
   bindE (db_get k) g e = g (visible (CHAT_DB e) (now e) k) (e\<lparr>trace := trace e @ [KvGet ChatDb k]\<rparr>)"
  by (simp add: bindE_def db_get_ok)

lemma getConversationMessages_frame:
  "CHAT_DB (snd (getConversationMessages c e)) = CHAT_DB e
   \<and> now (snd (getConversationMessages c e)) = now e"
proof -
  let ?e1 = "e\<lparr>trace := trace e @ [KvGet ChatDb (convKey c)]\<rparr>"
  have "CHAT_DB (snd (bindE (collect c ids []) (\<lambda>messages. returnE (sort_key timestamp messages)) ?e1))
          = CHAT_DB e
      \<and> now (snd (bindE (collect c ids []) (\<lambda>messages. returnE (sort_key timestamp messages)) ?e1))
          = now e" for ids
    using collect_db [of c ids "[]" ?e1]
    by (cases "fst (collect c ids [] ?e1)")
       (simp_all add: bindE_fst_Inl bindE_fst_Inr returnE_def)
  then show ?thesis
    by (simp add: getConversationMessages_def bindE_def db_get_run returnE_def throwE_def
        split: sum.splits option.splits json.splits)
qed

lemma getConversationMessages_ok:
  assumes "\<not> get_fails (CHAT_DB e)"
    and "visible (CHAT_DB e) (now e) (convKey c) = Some (JIds ids)"
    and "\<forall>i\<in>set ids. \<forall>l. visible (CHAT_DB e) (now e) (msgKey c i) \<noteq> Some (JIds l)"
  shows "fst (getConversationMessages c e) =
           Inr (sort_key timestamp (List.map_filter (stored_message (CHAT_DB e) (now e) c) ids))"
proof -
  let ?e1 = "e\<lparr>trace := trace e @ [KvGet ChatDb (convKey c)]\<rparr>"
  have "fst (collect c ids [] ?e1) =
          Inr ([] @ List.map_filter (stored_message (CHAT_DB ?e1) (now ?e1) c) ids)"
    by (rule collect_ok) (use assms in simp_all)
  then have c: "fst (collect c ids [] ?e1) =
          Inr (List.map_filter (stored_message (CHAT_DB e) (now e) c) ids)"
    by simp
  show ?thesis
    using assms(1,2)
    by (simp add: getConversationMessages_def bindE_fst_Inr [of "collect c ids []" ?e1, OF c] bindE_db_get
        returnE_def)
qed

lemma set_map_filter: "set (List.map_filter f xs) = {y. \<exists>x\<in>set xs. f x = Some y}"
  by (induction xs) (auto split: option.splits)

lemma set_map_filter_stored:
  "set (List.map_filter (stored_message s t c) ids) =
     {m. \<exists>i\<in>set ids. visible s t (msgKey c i) = Some (JMessage m)}"
proof -
  have "stored_message s t c i = Some m \<longleftrightarrow> visible s t (msgKey c i) = Some (JMessage m)" for i m
    by (simp add: stored_message_def split: option.splits json.splits)
  then show ?thesis by (simp add: set_map_filter)
qed

lemma env_gap_facts:
  "\<not> get_fails (CHAT_DB env_gap)" "\<not> delete_fails (CHAT_DB env_gap)"
  "visible (CHAT_DB env_gap) (now env_gap) (convKey ''conv_abc'') = Some (JIds [''m1'', ''m0'', ''m7''])"
  "visible (CHAT_DB env_gap) (now env_gap) (msgKey ''conv_abc'' ''m1'') = Some (JMessage (example_message 1))"
  "visible (CHAT_DB env_gap) (now env_gap) (msgKey ''conv_abc'' ''m0'') = Some (JMessage (example_message 0))"
  "visible (CHAT_DB env_gap) (now env_gap) (msgKey ''conv_abc'' ''m7'') = None"
  by (simp_all add: env_gap_def env0_def kv_empty_def visible_def convKey_def msgKey_def)

text \<open>
  C10. When the store answers and the id list of a conversation names ids with no
  stored record, \<^verbatim>\<open>getConversationMessages\<close> does not fail: it returns the
  messages whose records exist, each once per listed id, sorted by timestamp; the ids
  with no record are skipped.
\<close>

theorem read_skips_missing_records:
  assumes "\<not> get_fails (CHAT_DB e)"
    and "visible (CHAT_DB e) (now e) (convKey c) = Some (JIds ids)"
    and "\<forall>i\<in>set ids. \<forall>l. visible (CHAT_DB e) (now e) (msgKey c i) \<noteq> Some (JIds l)"
  shows "\<exists>ms. fst (getConversationMessages c e) = Inr ms
           \<and> ms = sort_key timestamp (List.map_filter (stored_message (CHAT_DB e) (now e) c) ids)
           \<and> sorted (map timestamp ms)
           \<and> mset ms = mset (List.map_filter (stored_message (CHAT_DB e) (now e) c) ids)
           \<and> set ms = {m. \<exists>i\<in>set ids. visible (CHAT_DB e) (now e) (msgKey c i) = Some (JMessage m)}"
  using getConversationMessages_ok [OF assms]
  by (simp add: set_map_filter_stored)

theorem read_skips_missing_records_witness:
  "\<not> get_fails (CHAT_DB env_gap)
   \<and> visible (CHAT_DB env_gap) (now env_gap) (convKey ''conv_abc'') = Some (JIds [''m1'', ''m0'', ''m7''])
   \<and> visible (CHAT_DB env_gap) (now env_gap) (msgKey ''conv_abc'' ''m7'') = None
   \<and> fst (getConversationMessages ''conv_abc'' env_gap) = Inr [example_message 0, example_message 1]"
proof -
  have h: "\<forall>i\<in>set [''m1'', ''m0'', ''m7''].
      \<forall>l. visible (CHAT_DB env_gap) (now env_gap) (msgKey ''conv_abc'' i) \<noteq> Some (JIds l)"
    by (simp add: env_gap_facts)
  have s: "List.map_filter (stored_message (CHAT_DB env_gap) (now env_gap) ''conv_abc'')
      [''m1'', ''m0'', ''m7''] = [example_message 1, example_message 0]"
    by (simp add: stored_message_def env_gap_facts)
  have t: "sort_key timestamp [example_message 1, example_message 0]
      = [example_message 0, example_message 1]"
    by (simp add: example_message_def)
  from read_skips_missing_records [OF env_gap_facts(1) env_gap_facts(3) h]
  obtain ms where r: "fst (getConversationMessages ''conv_abc'' env_gap) = Inr ms"
    and ms: "ms = sort_key timestamp
      (List.map_filter (stored_message (CHAT_DB env_gap) (now env_gap) ''conv_abc'')
        [''m1'', ''m0'', ''m7''])"
    by blast
  have "ms = [example_message 0, example_message 1]"
    unfolding ms s t ..
  with r show ?thesis
    by (simp add: env_gap_facts)
qed

text \<open>
  C8. When the store answers and the list key of the conversation holds an id list or
  nothing, \<^verbatim>\<open>clearConversationMessages\<close> succeeds and a read after it returns the
  empty sequence; clearing once more succeeds and changes nothing in the store.
\<close>

theorem clear_then_read:
  assumes "\<not> get_fails (CHAT_DB e)" and "\<not> delete_fails (CHAT_DB e)"
    and "\<forall>m. visible (CHAT_DB e) (now e) (convKey c) \<noteq> Some (JMessage m)"
  shows "fst (clearConversationMessages c e) = Inr ()
       \<and> fst (getConversationMessages c (snd (clearConversationMessages c e))) = Inr []
       \<and> fst (clearConversationMessages c (snd (clearConversationMessages c e))) = Inr ()
       \<and> CHAT_DB (snd (clearConversationMessages c (snd (clearConversationMessages c e))))
           = CHAT_DB (snd (clearConversationMessages c e))"
proof -
  let ?e1 = "e\<lparr>trace := trace e @ [KvGet ChatDb (convKey c)]\<rparr>"
  let ?e2 = "snd (clearConversationMessages c e)"
  have unknown: "fst (clearConversationMessages c x) = Inr ()
      \<and> CHAT_DB (snd (clearConversationMessages c x)) = CHAT_DB x
      \<and> fst (getConversationMessages c x) = Inr []"
    if "\<not> get_fails (CHAT_DB x)" "visible (CHAT_DB x) (now x) (convKey c) = None" for x
    using that
    by (simp add: clearConversationMessages_def getConversationMessages_def bindE_db_get
        returnE_def)
  have "fst (clearConversationMessages c e) = Inr ()
      \<and> \<not> get_fails (CHAT_DB ?e2) \<and> visible (CHAT_DB ?e2) (now ?e2) (convKey c) = None"
  proof (cases "visible (CHAT_DB e) (now e) (convKey c)")
    case None
    with assms(1) unknown [of e] show ?thesis
      by (simp add: clearConversationMessages_def bindE_db_get returnE_def)
  next
    case (Some j)
    with assms(3) obtain ids where j: "j = JIds ids" by (cases j) auto
    have d: "\<not> delete_fails (CHAT_DB ?e1)" using assms(2) by simp
    note da = delete_all_ok [OF d, of c ids]
    let ?e3 = "snd (delete_all c ids ?e1)"
    have da1: "fst (delete_all c ids ?e1) = Inr ()" using da by simp
    have run: "clearConversationMessages c e = db_delete (convKey c) ?e3"
      using assms(1) Some j
      by (simp add: clearConversationMessages_def bindE_fst_Inr [of "delete_all c ids" ?e1, OF da1]
          bindE_db_get)
    have d3: "\<not> delete_fails (CHAT_DB ?e3)" using da assms(2) by simp
    show ?thesis
      unfolding run db_delete_ok [OF d3]
      using da assms(1) by (simp add: visible_def)
  qed
  with unknown [of ?e2] show ?thesis by simp
qed

theorem clear_then_read_witness:
  "\<not> get_fails (CHAT_DB env_gap) \<and> \<not> delete_fails (CHAT_DB env_gap)
   \<and> visible (CHAT_DB env_gap) (now env_gap) (convKey ''conv_abc'') = Some (JIds [''m1'', ''m0'', ''m7''])
   \<and> fst (clearConversationMessages ''conv_abc'' env_gap) = Inr ()
   \<and> fst (getConversationMessages ''conv_abc'' (snd (clearConversationMessages ''conv_abc'' env_gap)))
       = Inr []"
proof -
  have h: "\<forall>m. visible (CHAT_DB env_gap) (now env_gap) (convKey ''conv_abc'') \<noteq> Some (JMessage m)"
    by (simp add: env_gap_facts)
  show ?thesis
    using clear_then_read [OF env_gap_facts(1) env_gap_facts(2) h]
    by (simp add: env_gap_facts)
qed

subsection \<open>ChatService: rejected input\<close>

lemma checkRateLimit_frame:
  "CHAT_DB (snd (checkRateLimit ip e)) = CHAT_DB e
   \<and> now (snd (checkRateLimit ip e)) = now e
   \<and> upstream (snd (checkRateLimit ip e)) = upstream e
   \<and> (new_events e (snd (checkRateLimit ip e)) = [KvGet RateLimit (rateKey ip)]
      \<or> new_events e (snd (checkRateLimit ip e))
           = [KvGet RateLimit (rateKey ip), KvPut RateLimit (rateKey ip)])"
  by (simp add: checkRateLimit_def checkRateLimit_try_def bindE_def rl_get_def rl_put_def
      kv_get_def kv_put_def returnE_def record_event_def new_events_def Let_def)

lemma validate_rejects:
  assumes "in_message input = [] \<or> 2000 < length (in_message input)
         \<or> in_conversationId input = []
         \<or> (\<exists>t. in_temperature input = Some t \<and> (t < 0 \<or> 2 < t))
         \<or> (\<exists>n. in_maxTokens input = Some n \<and> (n < 0 \<or> 4000 < n))"
  shows "\<exists>x. validateMessageInput input = Invalid x"
  using assms
  by (auto simp: validateMessageInput_def truthy_real_def truthy_int_def)

lemma toString_1: "toString (Num 1) = ''1''"
  by code_simp

lemmas run_defs =
  sendMessage_def sendMessage_try_def checkRateLimit_def checkRateLimit_try_def bindE_def
  rl_get_def rl_put_def db_get_def db_put_def db_delete_def kv_get_def kv_put_def kv_delete_def
  returnE_def throwE_def record_event_def Let_def visible_def js_ge_def js_add_def js_sub_def
  limit_def window_def toString_1 validateMessageInput_def truthy_real_def truthy_int_def
  getConversationMessages_def saveMessage_def parse_ids_def callDeepSeekAPI_def
  userMessage_def aiMessage_def completion_or_zero_def convKey_def msgKey_def rateKey_def

lemma checkRateLimit_cases:
  "checkRateLimit ip e =
     (if get_fails (RATE_LIMIT e)
      then (\<lparr>allowed = True, remaining = None, resetTime = None\<rparr>,
            record_event (KvGet RateLimit (rateKey ip)) e)
      else if js_ge (stored_count e ip) (Num 30)
      then (\<lparr>allowed = False, remaining = None, resetTime = Some 60\<rparr>,
            record_event (KvGet RateLimit (rateKey ip)) e)
      else if put_fails (RATE_LIMIT e)
      then (\<lparr>allowed = True, remaining = None, resetTime = None\<rparr>,
            record_event (KvPut RateLimit (rateKey ip))
              (record_event (KvGet RateLimit (rateKey ip)) e))
      else (\<lparr>allowed = True,
             remaining = Some (js_sub (js_sub (Num 30) (stored_count e ip)) (Num 1)),
             resetTime = None\<rparr>,
            (record_event (KvPut RateLimit (rateKey ip))
              (record_event (KvGet RateLimit (rateKey ip)) e))
            \<lparr>RATE_LIMIT := (RATE_LIMIT e)\<lparr>entries := (entries (RATE_LIMIT e))
               (rateKey ip \<mapsto> (toString (js_add (stored_count e ip) (Num 1)),
                                Some (now e + 60)))\<rparr>\<rparr>))"
  by (simp add: checkRateLimit_def checkRateLimit_try_def bindE_def rl_get_def rl_put_def
      kv_get_def kv_put_def returnE_def record_event_def Let_def stored_count_def
      limit_def window_def)

lemma sendMessage_invalid:
  assumes "validateMessageInput input = Invalid x"
  shows "sendMessage h input rt e =
     (failed (if allowed (fst (checkRateLimit (clientIP_of h) e)) then InvalidInput x
              else TooManyRequests (resetTime (fst (checkRateLimit (clientIP_of h) e)))),
      snd (checkRateLimit (clientIP_of h) e))"
  using assms by (simp add: sendMessage_def clientIP_of_def Let_def)

text \<open>
  C4, as the code has it. \<^verbatim>\<open>sendMessage\<close> consults the rate limiter before it
  validates. For an input with an empty message, a message of more than 2000
  characters, an empty conversation id, a temperature below 0 or above 2, or a
  \<^verbatim>\<open>maxTokens\<close> below 0 or above 4000, it returns a failure, leaves \<^verbatim>\<open>CHAT_DB\<close>
  as it was and sends nothing upstream. The failure is the one of the validation, unless
  the counter store answers with a count of 30 or more: then it is the rejection of the
  limiter. The counter of the client (the key \<^verbatim>\<open>rate:\<close> with the header
  \<^verbatim>\<open>CF-Connecting-IP\<close>, or \<^verbatim>\<open>unknown\<close>) is read; when the read succeeds and the
  count is below 30 the counter is written, and when that write succeeds too it holds
  the count plus one for 60 seconds more. In every other case the counter store is as
  it was.
\<close>

theorem sendMessage_invalid_input:
  assumes "in_message input = [] \<or> 2000 < length (in_message input)
         \<or> in_conversationId input = []
         \<or> (\<exists>t. in_temperature input = Some t \<and> (t < 0 \<or> 2 < t))
         \<or> (\<exists>n. in_maxTokens input = Some n \<and> (n < 0 \<or> 4000 < n))"
  shows "\<not> success (fst (sendMessage h input rt e))
       \<and> CHAT_DB (snd (sendMessage h input rt e)) = CHAT_DB e
       \<and> fetched (new_events e (snd (sendMessage h input rt e))) = []
       \<and> (\<exists>x. validateMessageInput input = Invalid x
            \<and> fst (sendMessage h input rt e) =
                failed (if \<not> get_fails (RATE_LIMIT e)
                           \<and> js_ge (stored_count e (clientIP_of h)) (Num 30)
                        then TooManyRequests (Some 60) else InvalidInput x))
       \<and> new_events e (snd (sendMessage h input rt e)) =
           (if get_fails (RATE_LIMIT e) \<or> js_ge (stored_count e (clientIP_of h)) (Num 30)
            then [KvGet RateLimit (rateKey (clientIP_of h))]
            else [KvGet RateLimit (rateKey (clientIP_of h)),
                  KvPut RateLimit (rateKey (clientIP_of h))])
       \<and> RATE_LIMIT (snd (sendMessage h input rt e)) =
           (if get_fails (RATE_LIMIT e) \<or> js_ge (stored_count e (clientIP_of h)) (Num 30)
               \<or> put_fails (RATE_LIMIT e)
            then RATE_LIMIT e
            else (RATE_LIMIT e)\<lparr>entries := (entries (RATE_LIMIT e))
                   (rateKey (clientIP_of h) \<mapsto>
                      (toString (js_add (stored_count e (clientIP_of h)) (Num 1)),
                       Some (now e + 60)))\<rparr>)"
proof -
  obtain x where x: "validateMessageInput input = Invalid x"
    using validate_rejects [OF assms] by blast
  show ?thesis
    unfolding sendMessage_invalid [OF x] checkRateLimit_cases
    by (simp add: x failed_def record_event_def new_events_def fetched_def)
qed

theorem sendMessage_invalid_input_witness:
  "2000 < length (in_message (input_ok\<lparr>in_message := replicate 2001 CHR ''a''\<rparr>))
   \<and> \<not> success (fst (sendMessage (Some ''10.0.0.1'')
        (input_ok\<lparr>in_message := replicate 2001 CHR ''a''\<rparr>) runtime0 env0))
   \<and> CHAT_DB (snd (sendMessage (Some ''10.0.0.1'')
        (input_ok\<lparr>in_message := replicate 2001 CHR ''a''\<rparr>) runtime0 env0)) = CHAT_DB env0
   \<and> new_events env0 (snd (sendMessage (Some ''10.0.0.1'')
        (input_ok\<lparr>in_message := replicate 2001 CHR ''a''\<rparr>) runtime0 env0))
       = [KvGet RateLimit ''rate:10.0.0.1'', KvPut RateLimit ''rate:10.0.0.1'']
   \<and> visible (RATE_LIMIT (snd (sendMessage (Some ''10.0.0.1'')
        (input_ok\<lparr>in_message := replicate 2001 CHR ''a''\<rparr>) runtime0 env0))) 0 ''rate:10.0.0.1''
       = Some ''1''"
proof -
  have c: "stored_count env0 (clientIP_of (Some ''10.0.0.1'')) = Num 0"
    by (simp add: stored_count_def env0_def kv_empty_def visible_def)
  have k: "rateKey (clientIP_of (Some ''10.0.0.1'')) = ''rate:10.0.0.1''"
    by (simp add: rateKey_def clientIP_of_def)
  have f: "\<not> get_fails (RATE_LIMIT env0)" "\<not> put_fails (RATE_LIMIT env0)"
    by (simp_all add: env0_def kv_empty_def)
  have l: "2000 < length (in_message (input_ok\<lparr>in_message := replicate 2001 CHR ''a''\<rparr>))"
    by simp
  from sendMessage_invalid_input [of "input_ok\<lparr>in_message := replicate 2001 CHR ''a''\<rparr>"
      "Some ''10.0.0.1''" runtime0 env0] l
  show ?thesis
    by (simp add: c k f js_ge_def js_add_def toString_1 visible_def)
qed

text \<open>
  C4 as stated fails: an empty message is rejected, but the rate counter of the client
  has been read and set to 1 by then.
\<close>

theorem sendMessage_touches_rate_counter:
  "\<not> success (fst (sendMessage None (input_ok\<lparr>in_message := []\<rparr>) runtime0 env0))
   \<and> visible (RATE_LIMIT env0) 0 (rateKey ''unknown'') = None
   \<and> visible (RATE_LIMIT (snd (sendMessage None (input_ok\<lparr>in_message := []\<rparr>) runtime0 env0))) 0
        (rateKey ''unknown'') = Some ''1''
   \<and> trace (snd (sendMessage None (input_ok\<lparr>in_message := []\<rparr>) runtime0 env0))
       = [KvGet RateLimit (rateKey ''unknown''), KvPut RateLimit (rateKey ''unknown'')]"
  by (simp add: sendMessage_def checkRateLimit_def checkRateLimit_try_def bindE_def rl_get_def
      rl_put_def kv_get_def kv_put_def returnE_def record_event_def Let_def env0_def kv_empty_def
      visible_def js_ge_def js_add_def js_sub_def limit_def window_def toString_1
      validateMessageInput_def input_ok_def failed_def)

text \<open>
  The guard \<^verbatim>\<open>input.maxTokens &&\<close> skips the range test for 0, and the validation
  accepts it.
\<close>

lemma validateMessageInput_maxTokens_zero:
  "validateMessageInput (input_ok\<lparr>in_maxTokens := Some 0\<rparr>) = Valid"
  by (simp add: validateMessageInput_def input_ok_def truthy_real_def truthy_int_def)

subsection \<open>ChatService: what is sent upstream\<close>

lemma collect_quiet:
  "\<exists>evs. trace (snd (collect c ids acc e)) = trace e @ evs \<and> fetched evs = []"
proof (induction ids arbitrary: acc e)
  case Nil
  show ?case by (simp add: returnE_def fetched_def)
next
  case (Cons i ids)
  let ?e1 = "e\<lparr>trace := trace e @ [KvGet ChatDb (msgKey c i)]\<rparr>"
  have "\<exists>evs. trace (snd (collect c ids acc' ?e1)) = trace e @ evs \<and> fetched evs = []" for acc'
  proof -
    from Cons [of acc' ?e1] obtain evs where
      "trace (snd (collect c ids acc' ?e1)) = trace ?e1 @ evs" "fetched evs = []" by blast
    then have "trace (snd (collect c ids acc' ?e1)) = trace e @ (KvGet ChatDb (msgKey c i) # evs)
        \<and> fetched (KvGet ChatDb (msgKey c i) # evs) = []"
      by (simp add: fetched_def)
    then show ?thesis by blast
  qed
  moreover have "\<exists>evs. [KvGet ChatDb (msgKey c i)] = evs \<and> fetched evs = []"
    by (simp add: fetched_def)
  ultimately show ?case
    by (auto simp: bindE_def db_get_run throwE_def split: sum.splits option.splits json.splits)
qed

lemma getConversationMessages_quiet:
  "\<exists>evs. trace (snd (getConversationMessages c e)) = trace e @ evs \<and> fetched evs = []"
proof -
  let ?e1 = "e\<lparr>trace := trace e @ [KvGet ChatDb (convKey c)]\<rparr>"
  have "\<exists>evs. trace (snd (bindE (collect c ids [])
      (\<lambda>messages. returnE (sort_key timestamp messages)) ?e1)) = trace e @ evs
      \<and> fetched evs = []" for ids
  proof -
    from collect_quiet [of c ids "[]" ?e1] obtain evs where
      "trace (snd (collect c ids [] ?e1)) = trace ?e1 @ evs" "fetched evs = []" by blast
    then have "trace (snd (collect c ids [] ?e1)) = trace e @ (KvGet ChatDb (convKey c) # evs)
        \<and> fetched (KvGet ChatDb (convKey c) # evs) = []"
      by (simp add: fetched_def)
    then show ?thesis
      by (cases "fst (collect c ids [] ?e1)")
         (auto simp: bindE_fst_Inl bindE_fst_Inr returnE_def)
  qed
  moreover have "\<exists>evs. [KvGet ChatDb (convKey c)] = evs \<and> fetched evs = []"
    by (simp add: fetched_def)
  ultimately show ?thesis
    by (simp add: getConversationMessages_def bindE_def db_get_run returnE_def throwE_def
        split: sum.splits option.splits json.splits)
qed

lemma saveMessage_quiet:
  "\<exists>evs. trace (snd (saveMessage m e)) = trace e @ evs \<and> fetched evs = []"
  by (simp add: saveMessage_def bindE_def db_put_def db_get_def db_delete_def kv_put_def
      kv_get_def kv_delete_def record_event_def throwE_def Let_def fetched_def
      split: sum.splits prod.splits if_splits)

lemma checkRateLimit_quiet:
  "\<exists>evs. trace (snd (checkRateLimit ip e)) = trace e @ evs \<and> fetched evs = []"
  by (simp add: checkRateLimit_cases record_event_def fetched_def)

lemma sendMessage_try_sent:
  "\<exists>evs. trace (snd (sendMessage_try input rt e)) = trace e @ evs
     \<and> fetched evs =
         (case fst (getConversationMessages (in_conversationId input) e) of
            Inl _ \<Rightarrow> []
          | Inr hist \<Rightarrow>
              (case fst (saveMessage (userMessage input rt)
                           (snd (getConversationMessages (in_conversationId input) e))) of
                 Inl _ \<Rightarrow> []
               | Inr _ \<Rightarrow> [request_of input hist]))"
proof -
  let ?c = "in_conversationId input"
  define k4 where "k4 = (\<lambda>resp (_::unit). returnE
      \<lparr>success = True, message = Some (aiMessage input rt resp), failure = None,
       usage = map_option
         (\<lambda>u. \<lparr>promptTokens = prompt_tokens u, completionTokens = completion_tokens u,
               totalTokens = total_tokens u\<rparr>) (snd resp)\<rparr>)"
  define k3 where "k3 = (\<lambda>resp. bindE (saveMessage (aiMessage input rt resp)) (k4 resp))"
  define k2 where "k2 = (\<lambda>hist (_::unit).
      bindE (callDeepSeekAPI (in_message input) hist (in_model input)
               (in_temperature input) (in_maxTokens input)) k3)"
  define k1 where "k1 = (\<lambda>hist. bindE (saveMessage (userMessage input rt)) (k2 hist))"
  have st: "sendMessage_try input rt = bindE (getConversationMessages ?c) k1"
    by (simp add: sendMessage_try_def k1_def k2_def k3_def k4_def)
  define e2 where "e2 = snd (getConversationMessages ?c e)"
  obtain a2 where a2: "trace e2 = trace e @ a2" "fetched a2 = []"
    using getConversationMessages_quiet [of ?c e] by (auto simp: e2_def)
  show ?thesis
  proof (cases "fst (getConversationMessages ?c e)")
    case (Inl x)
    then show ?thesis
      using a2 by (simp add: st bindE_fst_Inl e2_def)
  next
    case (Inr hist)
    define e3 where "e3 = snd (saveMessage (userMessage input rt) e2)"
    obtain a3 where a3: "trace e3 = trace e2 @ a3" "fetched a3 = []"
      using saveMessage_quiet [of "userMessage input rt" e2] by (auto simp: e3_def)
    have r1: "sendMessage_try input rt e = k1 hist e2"
      by (simp add: st bindE_fst_Inr [of "getConversationMessages ?c" e, OF Inr] e2_def)
    show ?thesis
    proof (cases "fst (saveMessage (userMessage input rt) e2)")
      case (Inl x)
      then have "snd (sendMessage_try input rt e) = e3"
        by (simp add: r1 k1_def bindE_fst_Inl e3_def)
      then show ?thesis
        using a2 a3 Inl Inr by (simp add: e2_def [symmetric] fetched_append)
    next
      case s: (Inr u)
      define e4 where "e4 = snd (callDeepSeekAPI (in_message input) hist (in_model input)
                (in_temperature input) (in_maxTokens input) e3)"
      have a4: "trace e4 = trace e3 @ [Fetch (request_of input hist)]"
        by (simp add: e4_def request_of_def callDeepSeekAPI_trace)
      have r2: "sendMessage_try input rt e = k2 hist u e3"
        by (simp add: r1 k1_def bindE_fst_Inr [of "saveMessage (userMessage input rt)" e2, OF s] e3_def)
      have "\<exists>a5. trace (snd (sendMessage_try input rt e)) = trace e4 @ a5 \<and> fetched a5 = []"
      proof (cases "fst (callDeepSeekAPI (in_message input) hist (in_model input)
                (in_temperature input) (in_maxTokens input) e3)")
        case (Inl x)
        then have "snd (sendMessage_try input rt e) = e4"
          by (simp add: r2 k2_def bindE_fst_Inl e4_def)
        then show ?thesis by (simp add: fetched_def)
      next
        case c: (Inr resp)
        have r3: "sendMessage_try input rt e = k3 resp e4"
          by (simp add: r2 k2_def e4_def
              bindE_fst_Inr [of "callDeepSeekAPI (in_message input) hist (in_model input)
                (in_temperature input) (in_maxTokens input)" e3, OF c])
        let ?a = "aiMessage input rt resp"
        have "snd (k3 resp e4) = snd (saveMessage ?a e4)"
          by (cases "fst (saveMessage ?a e4)")
             (simp_all add: k3_def bindE_fst_Inl bindE_fst_Inr k4_def returnE_def)
        with saveMessage_quiet [of ?a e4] show ?thesis
          by (simp add: r3)
      qed
      then obtain a5 where a5: "trace (snd (sendMessage_try input rt e)) = trace e4 @ a5"
        "fetched a5 = []" by blast
      have "trace (snd (sendMessage_try input rt e))
          = trace e @ (a2 @ a3 @ [Fetch (request_of input hist)] @ a5)"
        by (simp add: a5 a4 a3 a2)
      moreover have "fetched (a2 @ a3 @ [Fetch (request_of input hist)] @ a5)
          = [request_of input hist]"
        using a2 a3 a5 by (simp add: fetched_append) (simp add: fetched_def)
      ultimately show ?thesis
        using Inr s by (auto simp: e2_def [symmetric])
    qed
  qed
qed

lemma sendMessage_sent:
  "fetched (new_events e (snd (sendMessage h input rt e))) =
     (if allowed (fst (checkRateLimit (clientIP_of h) e)) \<and> validateMessageInput input = Valid
      then (case fst (getConversationMessages (in_conversationId input)
                        (snd (checkRateLimit (clientIP_of h) e))) of
              Inl _ \<Rightarrow> []
            | Inr hist \<Rightarrow>
                (case fst (saveMessage (userMessage input rt)
                             (snd (getConversationMessages (in_conversationId input)
                                     (snd (checkRateLimit (clientIP_of h) e))))) of
                   Inl _ \<Rightarrow> []
                 | Inr _ \<Rightarrow> [request_of input hist]))
      else [])"
proof -
  define e1 where "e1 = snd (checkRateLimit (clientIP_of h) e)"
  obtain a1 where a1: "trace e1 = trace e @ a1" "fetched a1 = []"
    using checkRateLimit_quiet [of "clientIP_of h" e] by (auto simp: e1_def)
  show ?thesis
  proof (cases "allowed (fst (checkRateLimit (clientIP_of h) e)) \<and> validateMessageInput input = Valid")
    case False
    then have "snd (sendMessage h input rt e) = e1"
      by (cases "validateMessageInput input")
         (auto simp: sendMessage_def clientIP_of_def [symmetric] Let_def e1_def)
    then have "fetched (new_events e (snd (sendMessage h input rt e))) = []"
      using a1 by (simp add: new_events_def)
    then show ?thesis
      by (subst if_not_P [OF False]) simp
  next
    case True
    then have "snd (sendMessage h input rt e) = snd (sendMessage_try input rt e1)"
      by (cases "sendMessage_try input rt e1"; cases "fst (sendMessage_try input rt e1)")
         (auto simp: sendMessage_def clientIP_of_def [symmetric] Let_def e1_def)
    moreover from sendMessage_try_sent [of input rt e1] obtain evs where
      "trace (snd (sendMessage_try input rt e1)) = trace e1 @ evs"
      and f: "fetched evs =
         (case fst (getConversationMessages (in_conversationId input) e1) of
            Inl _ \<Rightarrow> []
          | Inr hist \<Rightarrow>
              (case fst (saveMessage (userMessage input rt)
                           (snd (getConversationMessages (in_conversationId input) e1))) of
                 Inl _ \<Rightarrow> []
               | Inr _ \<Rightarrow> [request_of input hist]))"
      by blast
    ultimately have "fetched (new_events e (snd (sendMessage h input rt e))) = fetched evs"
      using a1 by (simp add: new_events_def fetched_append)
    then have g: "fetched (new_events e (snd (sendMessage h input rt e))) =
         (case fst (getConversationMessages (in_conversationId input) e1) of
            Inl _ \<Rightarrow> []
          | Inr hist \<Rightarrow>
              (case fst (saveMessage (userMessage input rt)
                           (snd (getConversationMessages (in_conversationId input) e1))) of
                 Inl _ \<Rightarrow> []
               | Inr _ \<Rightarrow> [request_of input hist]))"
      by (simp only: f)
    show ?thesis
      by (subst if_P [OF True]) (rule g [unfolded e1_def])
  qed
qed

lemma getConversationMessages_succeeds:
  assumes "store_ready e c"
  shows "\<exists>hist. fst (getConversationMessages c e) = Inr hist"
proof (cases "visible (CHAT_DB e) (now e) (convKey c)")
  case None
  then show ?thesis
    using assms by (simp add: store_ready_def getConversationMessages_def bindE_db_get returnE_def)
next
  case (Some j)
  with assms obtain ids where j: "j = JIds ids"
    by (cases j) (auto simp: store_ready_def)
  have gf: "\<not> get_fails (CHAT_DB e)" using assms by (simp add: store_ready_def)
  have ty: "\<forall>i\<in>set ids. \<forall>l. visible (CHAT_DB e) (now e) (msgKey c i) \<noteq> Some (JIds l)"
    using assms Some j by (auto simp: store_ready_def)
  from getConversationMessages_ok [OF gf Some [unfolded j] ty] show ?thesis by blast
qed

lemma saveMessage_ready:
  assumes "store_ready e (conversationId m)"
  shows "fst (saveMessage m e) = Inr ()"
proof -
  have f: "\<not> put_fails (CHAT_DB e)" "\<not> get_fails (CHAT_DB e)" "\<not> delete_fails (CHAT_DB e)"
    using assms by (simp_all add: store_ready_def)
  obtain ids0 where "parse_ids (visible (CHAT_DB e) (now e) (convKey (conversationId m))) = Inr ids0"
    using assms
    by (cases "parse_ids (visible (CHAT_DB e) (now e) (convKey (conversationId m)))")
       (auto simp: store_ready_def parse_ids_def split: option.splits json.splits)
  from saveMessage_succeeds [OF f this] show ?thesis .
qed

lemma store_ready_cong:
  assumes "CHAT_DB e1 = CHAT_DB e" "now e1 = now e"
  shows "store_ready e1 c = store_ready e c"
  unfolding store_ready_def assms by (rule refl)

text \<open>
  C7, as the code has it. The validation does not depend on the model identifier. An
  input whose temperature is below 0 or above 2, or whose \<^verbatim>\<open>maxTokens\<close> is below 0
  or above 4000, is rejected by the validation, and \<^verbatim>\<open>sendMessage\<close> fails without
  a request upstream. \<^verbatim>\<open>sendMessage\<close> sends at most one request upstream, and that
  request carries the model identifier of the input as given; it sends one, whatever
  the model identifier, when the limiter allows the request, the validation accepts
  the input and the store answers.
\<close>

theorem validation_out_of_range:
  "validateMessageInput (input\<lparr>in_model := m\<rparr>) = validateMessageInput input
   \<and> ((\<exists>t. in_temperature input = Some t \<and> (t < 0 \<or> 2 < t))
       \<or> (\<exists>n. in_maxTokens input = Some n \<and> (n < 0 \<or> 4000 < n))
      \<longrightarrow> validateMessageInput input \<noteq> Valid
        \<and> \<not> success (fst (sendMessage h input rt e))
        \<and> fetched (new_events e (snd (sendMessage h input rt e))) = [])
   \<and> (fetched (new_events e (snd (sendMessage h input rt e))) = []
       \<or> (\<exists>hist. fetched (new_events e (snd (sendMessage h input rt e)))
                   = [request_of input hist]))
   \<and> (\<forall>b\<in>set (fetched (new_events e (snd (sendMessage h input rt e)))).
         rb_model b = in_model input)
   \<and> (allowed (fst (checkRateLimit (clientIP_of h) e))
       \<and> validateMessageInput input = Valid
       \<and> store_ready e (in_conversationId input)
      \<longrightarrow> map rb_model (fetched (new_events e (snd (sendMessage h input rt e))))
            = [in_model input])"
proof -
  let ?c = "in_conversationId input"
  let ?F = "fetched (new_events e (snd (sendMessage h input rt e)))"
  define e1 where "e1 = snd (checkRateLimit (clientIP_of h) e)"
  define e2 where "e2 = snd (getConversationMessages ?c e1)"
  have A: "validateMessageInput (input\<lparr>in_model := m\<rparr>) = validateMessageInput input"
    by (simp add: validateMessageInput_def cong: if_cong)
  have B: "validateMessageInput input \<noteq> Valid
        \<and> \<not> success (fst (sendMessage h input rt e)) \<and> ?F = []"
    if "(\<exists>t. in_temperature input = Some t \<and> (t < 0 \<or> 2 < t))
       \<or> (\<exists>n. in_maxTokens input = Some n \<and> (n < 0 \<or> 4000 < n))"
  proof -
    have "in_message input = [] \<or> 2000 < length (in_message input)
         \<or> in_conversationId input = []
         \<or> (\<exists>t. in_temperature input = Some t \<and> (t < 0 \<or> 2 < t))
         \<or> (\<exists>n. in_maxTokens input = Some n \<and> (n < 0 \<or> 4000 < n))"
      using that by auto
    from validate_rejects [OF this] obtain x where x: "validateMessageInput input = Invalid x"
      by blast
    have "\<not> success (fst (sendMessage h input rt e))"
      by (simp add: sendMessage_invalid [OF x] failed_def)
    moreover have "?F = []"
      by (simp add: sendMessage_sent x)
    ultimately show ?thesis
      using x by simp
  qed
  have C: "?F = [] \<or> (\<exists>hist. ?F = [request_of input hist])"
  proof (cases "?F = []")
    case True
    then show ?thesis by simp
  next
    case False
    then obtain hist where "?F = [request_of input hist]"
      unfolding sendMessage_sent by (auto split: if_splits sum.splits)
    then show ?thesis by blast
  qed
  then have C': "\<forall>b\<in>set ?F. rb_model b = in_model input"
    by (auto simp: request_of_def)
  have D: "map rb_model ?F = [in_model input]"
    if "allowed (fst (checkRateLimit (clientIP_of h) e)) \<and> validateMessageInput input = Valid
       \<and> store_ready e ?c"
  proof -
    have "CHAT_DB e1 = CHAT_DB e" "now e1 = now e"
      using checkRateLimit_frame [of "clientIP_of h" e] by (simp_all add: e1_def)
    from store_ready_cong [OF this] that have r1: "store_ready e1 ?c"
      by simp
    then obtain hist where h: "fst (getConversationMessages ?c e1) = Inr hist"
      using getConversationMessages_succeeds by blast
    have "CHAT_DB e2 = CHAT_DB e1" "now e2 = now e1"
      using getConversationMessages_frame [of ?c e1] by (simp_all add: e2_def)
    from store_ready_cong [OF this] r1
    have "store_ready e2 (conversationId (userMessage input rt))"
      by (simp add: userMessage_def)
    then have s: "fst (saveMessage (userMessage input rt) e2) = Inr ()"
      by (rule saveMessage_ready)
    have "?F = [request_of input hist]"
      using that h s by (simp add: sendMessage_sent e1_def [symmetric] e2_def [symmetric])
    then show ?thesis by (simp add: request_of_def)
  qed
  from A B C C' D show ?thesis by blast
qed

theorem validation_out_of_range_witness:
  "in_temperature (input_ok\<lparr>in_temperature := Some (- 0.5)\<rparr>) = Some (- 0.5)
   \<and> validateMessageInput (input_ok\<lparr>in_temperature := Some (- 0.5)\<rparr>) \<noteq> Valid
   \<and> \<not> success (fst (sendMessage None (input_ok\<lparr>in_temperature := Some (- 0.5)\<rparr>) runtime0 env0))
   \<and> fetched (new_events env0 (snd (sendMessage None (input_ok\<lparr>in_temperature := Some (- 0.5)\<rparr>)
        runtime0 env0))) = []
   \<and> allowed (fst (checkRateLimit (clientIP_of None) env0))
   \<and> validateMessageInput (input_ok\<lparr>in_model := Some ''no-such-model''\<rparr>) = Valid
   \<and> store_ready env0 (in_conversationId (input_ok\<lparr>in_model := Some ''no-such-model''\<rparr>))
   \<and> map rb_model (fetched (new_events env0 (snd (sendMessage None
         (input_ok\<lparr>in_model := Some ''no-such-model''\<rparr>) runtime0 env0))))
       = [Some ''no-such-model'']"
proof -
  have a: "allowed (fst (checkRateLimit (clientIP_of None) env0))"
    by (simp add: checkRateLimit_cases env0_def kv_empty_def stored_count_def visible_def
        js_ge_def)
  have v: "validateMessageInput (input_ok\<lparr>in_model := Some ''no-such-model''\<rparr>) = Valid"
    by (simp add: validateMessageInput_def input_ok_def truthy_real_def truthy_int_def)
  have s: "store_ready env0 (in_conversationId (input_ok\<lparr>in_model := Some ''no-such-model''\<rparr>))"
    by (simp add: store_ready_def env0_def kv_empty_def visible_def)
  have t: "in_temperature (input_ok\<lparr>in_temperature := Some (- 0.5)\<rparr>) = Some (- 0.5)"
    by simp
  from validation_out_of_range [where input = "input_ok\<lparr>in_temperature := Some (- 0.5)\<rparr>"
      and h = None and rt = runtime0 and e = env0]
    validation_out_of_range [where input = "input_ok\<lparr>in_model := Some ''no-such-model''\<rparr>"
      and h = None and rt = runtime0 and e = env0]
    a v s t
  show ?thesis by simp
qed

text \<open>
  C7 as stated fails: a model identifier that is not supported passes the validation
  and is sent upstream.
\<close>

theorem unsupported_model_reaches_upstream:
  "validateMessageInput (input_ok\<lparr>in_model := Some ''no-such-model''\<rparr>) = Valid
   \<and> success (fst (sendMessage None (input_ok\<lparr>in_model := Some ''no-such-model''\<rparr>) runtime0 env0))
   \<and> map rb_model (fetched (trace (snd (sendMessage None
         (input_ok\<lparr>in_model := Some ''no-such-model''\<rparr>) runtime0 env0))))
       = [Some ''no-such-model'']"
  by (simp add: run_defs env0_def kv_empty_def input_ok_def runtime0_def fetched_def)

subsection \<open>ChatService: the assistant message\<close>

lemma bindE_InrD:
  assumes "fst (bindE f g e) = Inr r"
  shows "\<exists>a. fst (f e) = Inr a \<and> bindE f g e = g a (snd (f e))"
  using assms by (cases "f e"; cases "fst (f e)") (auto simp: bindE_def)

lemma collect_upstream: "upstream (snd (collect c ids acc e)) = upstream e"
proof (induction ids arbitrary: acc e)
  case Nil
  show ?case by (simp add: returnE_def)
next
  case (Cons i ids)
  show ?case
    by (simp add: bindE_def db_get_run Cons throwE_def split: sum.splits option.splits json.splits)
qed

lemma getConversationMessages_upstream:
  "upstream (snd (getConversationMessages c e)) = upstream e"
proof -
  let ?e1 = "e\<lparr>trace := trace e @ [KvGet ChatDb (convKey c)]\<rparr>"
  have "upstream (snd (bindE (collect c ids []) (\<lambda>messages. returnE (sort_key timestamp messages)) ?e1))
          = upstream e" for ids
    using collect_upstream [of c ids "[]" ?e1]
    by (cases "fst (collect c ids [] ?e1)")
       (simp_all add: bindE_fst_Inl bindE_fst_Inr returnE_def)
  then show ?thesis
    by (simp add: getConversationMessages_def bindE_def db_get_run returnE_def throwE_def
        split: sum.splits option.splits json.splits)
qed

lemma callDeepSeekAPI_Inr:
  assumes "fst (callDeepSeekAPI msg history mo t mt e) = Inr r"
  shows "\<exists>body. upstream e body = Completion (fst r) (snd r) \<and> rb_model body = mo"
    and "CHAT_DB (snd (callDeepSeekAPI msg history mo t mt e)) = CHAT_DB e"
    and "now (snd (callDeepSeekAPI msg history mo t mt e)) = now e"
proof -
  let ?b = "\<lparr>rb_model = mo, rb_messages = build_messages msg history,
              rb_temperature = t, rb_max_tokens = mt, rb_stream = False\<rparr>"
  have "upstream e ?b = Completion (fst r) (snd r)"
    using assms by (cases "upstream e ?b") (auto simp: callDeepSeekAPI_def Let_def)
  then show "\<exists>body. upstream e body = Completion (fst r) (snd r) \<and> rb_model body = mo"
    by (intro exI [of _ ?b]) simp
  show "CHAT_DB (snd (callDeepSeekAPI msg history mo t mt e)) = CHAT_DB e"
    by (simp add: callDeepSeekAPI_def Let_def record_event_def split: Reply.splits)
  show "now (snd (callDeepSeekAPI msg history mo t mt e)) = now e"
    by (simp add: callDeepSeekAPI_def Let_def record_event_def split: Reply.splits)
qed

lemma sendMessage_success:
  assumes "success (fst (sendMessage h input rt e))"
  shows "\<exists>ip. fst (sendMessage_try input rt (snd (checkRateLimit ip e)))
               = Inr (fst (sendMessage h input rt e))
           \<and> snd (sendMessage_try input rt (snd (checkRateLimit ip e)))
               = snd (sendMessage h input rt e)"
proof -
  define ip where "ip = (case h of None \<Rightarrow> ''unknown'' | Some a \<Rightarrow> if a = [] then ''unknown'' else a)"
  let ?e1 = "snd (checkRateLimit ip e)"
  have "fst (sendMessage_try input rt ?e1) = Inr (fst (sendMessage h input rt e))
      \<and> snd (sendMessage_try input rt ?e1) = snd (sendMessage h input rt e)"
    using assms
    by (cases "sendMessage_try input rt ?e1"; cases "fst (sendMessage_try input rt ?e1)")
       (auto simp: sendMessage_def ip_def [symmetric] Let_def failed_def
          split: if_splits Validation.splits)
  then show ?thesis by blast
qed

lemma parse_ids_cases:
  "parse_ids v = Inr ids \<longleftrightarrow> (v = None \<and> ids = []) \<or> v = Some (JIds ids)"
  by (auto simp: parse_ids_def split: option.splits json.splits)

lemma collect_grows: "\<exists>evs. trace (snd (collect c ids acc e)) = trace e @ evs"
proof (induction ids arbitrary: acc e)
  case Nil
  show ?case by (simp add: returnE_def)
next
  case (Cons i ids)
  let ?e1 = "e\<lparr>trace := trace e @ [KvGet ChatDb (msgKey c i)]\<rparr>"
  have "\<exists>evs. trace (snd (collect c ids acc' ?e1)) = trace e @ evs" for acc'
    using Cons [of acc' ?e1] by auto
  then show ?case
    by (auto simp: bindE_def db_get_run throwE_def split: sum.splits option.splits json.splits)
qed

lemma getConversationMessages_grows:
  "\<exists>evs. trace (snd (getConversationMessages c e)) = trace e @ evs"
proof -
  let ?e1 = "e\<lparr>trace := trace e @ [KvGet ChatDb (convKey c)]\<rparr>"
  have "\<exists>evs. trace (snd (bindE (collect c ids [])
      (\<lambda>messages. returnE (sort_key timestamp messages)) ?e1)) = trace e @ evs" for ids
    using collect_grows [of c ids "[]" ?e1]
    by (cases "fst (collect c ids [] ?e1)")
       (auto simp: bindE_fst_Inl bindE_fst_Inr returnE_def)
  then show ?thesis
    by (simp add: getConversationMessages_def bindE_def db_get_run returnE_def throwE_def
        split: sum.splits option.splits json.splits)
qed

lemma saveMessage_grows: "\<exists>evs. trace (snd (saveMessage m e)) = trace e @ evs"
  by (simp add: saveMessage_def bindE_def db_put_def db_get_def db_delete_def kv_put_def
      kv_get_def kv_delete_def record_event_def throwE_def Let_def
      split: sum.splits prod.splits if_splits)

lemma checkRateLimit_grows: "\<exists>evs. trace (snd (checkRateLimit ip e)) = trace e @ evs"
  by (simp add: checkRateLimit_def checkRateLimit_try_def bindE_def rl_get_def rl_put_def
      kv_get_def kv_put_def returnE_def record_event_def Let_def)

lemma callDeepSeekAPI_reply:
  assumes "fst (callDeepSeekAPI msg history mo t mt e) = Inr r"
  shows "upstream e \<lparr>rb_model = mo, rb_messages = build_messages msg history,
              rb_temperature = t, rb_max_tokens = mt, rb_stream = False\<rparr>
           = Completion (fst r) (snd r)"
  using assms
  by (cases "upstream e \<lparr>rb_model = mo, rb_messages = build_messages msg history,
              rb_temperature = t, rb_max_tokens = mt, rb_stream = False\<rparr>")
     (auto simp: callDeepSeekAPI_def Let_def)

text \<open>
  C5, as the code has it. When \<^verbatim>\<open>sendMessage\<close> succeeds and the id generated for the
  assistant message is fresh in the conversation, the assistant message it returns is
  the record stored under that id; it carries the model identifier of the request, and
  its token count is the completion-token count of the usage in the reply to the
  request it sent upstream when usage is present, and 0 otherwise.
\<close>

theorem sendMessage_assistant_message:
  assumes ok: "success (fst (sendMessage h input rt e))"
    and fresh: "\<forall>ids. visible (CHAT_DB e) (now e) (convKey (in_conversationId input)) = Some (JIds ids)
                  \<longrightarrow> ai_id rt \<notin> set ids"
    and neq: "ai_id rt \<noteq> user_id rt"
  shows "\<exists>c u body a.
           body \<in> set (fetched (new_events e (snd (sendMessage h input rt e))))
         \<and> upstream e body = Completion c u \<and> rb_model body = in_model input
         \<and> message (fst (sendMessage h input rt e)) = Some a
         \<and> visible (CHAT_DB (snd (sendMessage h input rt e))) (now (snd (sendMessage h input rt e)))
             (msgKey (in_conversationId input) (ai_id rt)) = Some (JMessage a)
         \<and> role a = ASSISTANT \<and> content a = c
         \<and> model a = in_model input
         \<and> tokens a = (case u of None \<Rightarrow> 0 | Some x \<Rightarrow> completion_tokens x)"
proof -
  let ?R = "sendMessage h input rt e"
  let ?c = "in_conversationId input"
  from sendMessage_success [OF ok] obtain ip where
    t: "fst (sendMessage_try input rt (snd (checkRateLimit ip e))) = Inr (fst ?R)"
    and t2: "snd (sendMessage_try input rt (snd (checkRateLimit ip e))) = snd ?R"
    by blast
  define e1 where "e1 = snd (checkRateLimit ip e)"
  have e1: "CHAT_DB e1 = CHAT_DB e" "now e1 = now e" "upstream e1 = upstream e"
    using checkRateLimit_frame [of ip e] by (simp_all add: e1_def)
  obtain a1 where a1: "trace e1 = trace e @ a1"
    using checkRateLimit_grows [of ip e] by (auto simp: e1_def)
  note t = t [folded e1_def] and t2 = t2 [folded e1_def]
  define k4 where "k4 = (\<lambda>resp (_::unit). returnE
      \<lparr>success = True, message = Some (aiMessage input rt resp), failure = None,
       usage = map_option
         (\<lambda>u. \<lparr>promptTokens = prompt_tokens u, completionTokens = completion_tokens u,
               totalTokens = total_tokens u\<rparr>) (snd resp)\<rparr>)"
  define k3 where "k3 = (\<lambda>resp. bindE (saveMessage (aiMessage input rt resp)) (k4 resp))"
  define k2 where "k2 = (\<lambda>hist (_::unit).
      bindE (callDeepSeekAPI (in_message input) hist (in_model input)
               (in_temperature input) (in_maxTokens input)) k3)"
  define k1 where "k1 = (\<lambda>hist. bindE (saveMessage (userMessage input rt)) (k2 hist))"
  have st: "sendMessage_try input rt = bindE (getConversationMessages ?c) k1"
    by (simp add: sendMessage_try_def k1_def k2_def k3_def k4_def)
  \<comment> \<open>the history is read\<close>
  define e2 where "e2 = snd (getConversationMessages ?c e1)"
  have "fst (bindE (getConversationMessages ?c) k1 e1) = Inr (fst ?R)"
    using t by (simp add: st)
  from bindE_InrD [OF this] obtain hist where
    r1: "sendMessage_try input rt e1 = k1 hist e2"
    by (auto simp: st e2_def)
  have e2: "CHAT_DB e2 = CHAT_DB e" "now e2 = now e" "upstream e2 = upstream e"
    using getConversationMessages_frame [of ?c e1] getConversationMessages_upstream [of ?c e1] e1
    by (simp_all add: e2_def)
  obtain a2 where a2: "trace e2 = trace e1 @ a2"
    using getConversationMessages_grows [of ?c e1] by (auto simp: e2_def)
  \<comment> \<open>the user message is saved\<close>
  define e3 where "e3 = snd (saveMessage (userMessage input rt) e2)"
  have "fst (bindE (saveMessage (userMessage input rt)) (k2 hist) e2) = Inr (fst ?R)"
    using t r1 by (simp add: k1_def)
  from bindE_InrD [OF this] have
    s1: "fst (saveMessage (userMessage input rt) e2) = Inr ()"
    and r2: "sendMessage_try input rt e1 = k2 hist () e3"
    by (auto simp: r1 k1_def e3_def)
  have e3: "now e3 = now e" "upstream e3 = upstream e"
    using saveMessage_frame [of "userMessage input rt" e2] e2 by (simp_all add: e3_def)
  from saveMessage_Inr [OF s1] obtain ids0 where
    p0: "parse_ids (visible (CHAT_DB e) (now e) (convKey ?c)) = Inr ids0"
    and v3: "\<And>t k. visible (CHAT_DB e3) t k = after_save (userMessage input rt) ids0 (CHAT_DB e) t k"
    by (auto simp: e2 e3_def userMessage_def)
  obtain a3 where a3: "trace e3 = trace e2 @ a3"
    using saveMessage_grows [of "userMessage input rt" e2] by (auto simp: e3_def)
  \<comment> \<open>the upstream call answers\<close>
  define e4 where "e4 = snd (callDeepSeekAPI (in_message input) hist (in_model input)
                (in_temperature input) (in_maxTokens input) e3)"
  have "fst (bindE (callDeepSeekAPI (in_message input) hist (in_model input)
                (in_temperature input) (in_maxTokens input)) k3 e3) = Inr (fst ?R)"
    using t r2 by (simp add: k2_def)
  from bindE_InrD [OF this] obtain resp where
    c1: "fst (callDeepSeekAPI (in_message input) hist (in_model input)
                (in_temperature input) (in_maxTokens input) e3) = Inr resp"
    and r3: "sendMessage_try input rt e1 = k3 resp e4"
    by (auto simp: r2 k2_def e4_def)
  note cf = callDeepSeekAPI_Inr [OF c1]
  have e4: "CHAT_DB e4 = CHAT_DB e3" "now e4 = now e"
    using cf(2,3) e3 by (simp_all add: e4_def)
  define body where "body = \<lparr>rb_model = in_model input,
      rb_messages = build_messages (in_message input) hist,
      rb_temperature = in_temperature input, rb_max_tokens = in_maxTokens input,
      rb_stream = False\<rparr>"
  have b: "upstream e body = Completion (fst resp) (snd resp)" "rb_model body = in_model input"
    using callDeepSeekAPI_reply [OF c1] e3 by (simp_all add: body_def)
  have a4: "trace e4 = trace e3 @ [Fetch body]"
    by (simp add: e4_def body_def callDeepSeekAPI_trace)
  \<comment> \<open>the assistant message is saved\<close>
  let ?a = "aiMessage input rt resp"
  define e5 where "e5 = snd (saveMessage ?a e4)"
  have "fst (bindE (saveMessage ?a) (k4 resp) e4) = Inr (fst ?R)"
    using t r3 by (simp add: k3_def)
  from bindE_InrD [OF this] have
    s2: "fst (saveMessage ?a e4) = Inr ()"
    and r4: "sendMessage_try input rt e1 = k4 resp () e5"
    by (auto simp: r3 k3_def e5_def)
  have e5: "now e5 = now e"
    using saveMessage_frame [of ?a e4] e4 by (simp add: e5_def)
  obtain a5 where a5: "trace e5 = trace e4 @ a5"
    using saveMessage_grows [of ?a e4] by (auto simp: e5_def)
  have sent: "body \<in> set (fetched (new_events e e5))"
    by (simp add: new_events_def a5 a4 a3 a2 a1 fetched_append) (simp add: fetched_def)
  have R1: "message (fst ?R) = Some ?a"
  proof -
    have "Inr (fst ?R) = fst (k4 resp () e5)"
      using t r4 by simp
    also have "\<dots> = Inr \<lparr>success = True, message = Some ?a, failure = None,
       usage = map_option
         (\<lambda>u. \<lparr>promptTokens = prompt_tokens u, completionTokens = completion_tokens u,
               totalTokens = total_tokens u\<rparr>) (snd resp)\<rparr>"
      by (simp add: k4_def returnE_def)
    finally show ?thesis by simp
  qed
  have R2: "snd ?R = e5"
    using t2 r4 by (simp add: returnE_def k4_def)
  have ca: "conversationId ?a = ?c" "msg_id ?a = ai_id rt"
    by (simp_all add: aiMessage_def)
  from saveMessage_Inr [OF s2] obtain ids1 where
    p1: "parse_ids (visible (CHAT_DB e3) (now e) (convKey ?c)) = Inr ids1"
    and v5: "\<And>t k. visible (CHAT_DB e5) t k = after_save ?a ids1 (CHAT_DB e3) t k"
    by (auto simp: e4 e5_def ca)
  have ids1: "ids1 = (if length ids0 \<ge> 100 then tl (ids0 @ [user_id rt]) else ids0 @ [user_id rt])"
    using p1 by (auto simp: v3 after_save_def userMessage_def parse_ids_def split: if_splits)
  have "ai_id rt \<notin> set ids0"
    using p0 fresh by (auto simp: parse_ids_cases)
  then have "ai_id rt \<notin> set (ids0 @ [user_id rt])"
    using neq by simp
  then have nin: "ai_id rt \<notin> set ids1"
    unfolding ids1 by (auto dest: list.set_sel(2) [rotated])
  have hd: "hd (ids1 @ [ai_id rt]) \<noteq> ai_id rt" if "length ids1 \<ge> 100"
  proof -
    from that have "ids1 \<noteq> []" by auto
    then have "hd (ids1 @ [ai_id rt]) \<in> set ids1" by simp
    with nin show ?thesis by auto
  qed
  have stored: "visible (CHAT_DB e5) (now e5) (msgKey ?c (ai_id rt)) = Some (JMessage ?a)"
    using hd by (auto simp: v5 after_save_def ca msgKey_inj convKey_neq_msgKey [symmetric])
  have fields: "role ?a = ASSISTANT" "content ?a = fst resp" "model ?a = in_model input"
    "tokens ?a = (case snd resp of None \<Rightarrow> 0 | Some x \<Rightarrow> completion_tokens x)"
    by (simp_all add: aiMessage_def completion_or_zero_def split: option.splits)
  show ?thesis
    using sent b R1 stored fields unfolding R2 by blast
qed

theorem sendMessage_assistant_message_witness:
  "success (fst (sendMessage None input_ok runtime0 env_usage))
   \<and> ai_id runtime0 \<noteq> user_id runtime0
   \<and> (\<exists>a. message (fst (sendMessage None input_ok runtime0 env_usage)) = Some a
          \<and> visible (CHAT_DB (snd (sendMessage None input_ok runtime0 env_usage)))
               (now (snd (sendMessage None input_ok runtime0 env_usage)))
               (msgKey (in_conversationId input_ok) (ai_id runtime0)) = Some (JMessage a)
          \<and> content a = ''hi there'' \<and> model a = Some ''deepseek-chat'' \<and> tokens a = 3)"
proof -
  have s: "success (fst (sendMessage None input_ok runtime0 env_usage))"
    by (simp add: run_defs env_usage_def env0_def kv_empty_def input_ok_def runtime0_def)
  have f: "\<forall>ids. visible (CHAT_DB env_usage) (now env_usage) (convKey (in_conversationId input_ok))
      = Some (JIds ids) \<longrightarrow> ai_id runtime0 \<notin> set ids"
    by (simp add: env_usage_def env0_def kv_empty_def visible_def)
  have n: "ai_id runtime0 \<noteq> user_id runtime0"
    by (simp add: runtime0_def)
  have u: "upstream env_usage b = Completion c u \<longleftrightarrow>
      c = ''hi there'' \<and> u = Some \<lparr>prompt_tokens = 5, completion_tokens = 3, total_tokens = 8\<rparr>"
    for b c u
    by (auto simp: env_usage_def)
  have m: "in_model input_ok = Some ''deepseek-chat''"
    by (simp add: input_ok_def)
  from sendMessage_assistant_message [OF s f n] show ?thesis
    using s n by (auto simp: u m)
qed

text \<open>
  C5 as stated fails: when the upstream reports no usage the assistant message carries
  0 tokens, not the estimate from the length of its content (6 for \<^verbatim>\<open>hi there\<close>).
\<close>

theorem assistant_tokens_without_usage:
  "upstream env0 = (\<lambda>_. Completion ''hi there'' None)
   \<and> success (fst (sendMessage None input_ok runtime0 env0))
   \<and> map_option tokens (message (fst (sendMessage None input_ok runtime0 env0))) = Some 0
   \<and> estimateTokens ''hi there'' = 6"
  by (simp add: run_defs env0_def kv_empty_def input_ok_def runtime0_def estimateTokens_def)

subsection \<open>RateLimiter: the decimal text of the counter\<close>

lemma is_decimal_char_of: "(d::nat) < 10 \<Longrightarrow> is_decimal (char_of (48 + d))"
  by (simp add: is_decimal_def)

lemma digit_val_char_of: "(d::nat) < 10 \<Longrightarrow> digit_val (char_of (48 + d)) = d"
  by (simp add: digit_val_def)

lemma is_decimal_facts:
  assumes "is_decimal c"
  shows "in_radix 10 c" "\<not> is_space c" "c \<noteq> CHR ''-''" "c \<noteq> CHR ''+''"
    "c \<noteq> CHR ''x''" "c \<noteq> CHR ''X''"
  using assms by (auto simp: is_decimal_def in_radix_def digit_val_def is_space_def)

lemma digits_all: "\<forall>c\<in>set (digits n). is_decimal c"
proof (induction n rule: digits.induct)
  case (1 n)
  show ?case
  proof (cases "n < 10")
    case True
    then show ?thesis by (subst digits.simps) (simp add: is_decimal_char_of)
  next
    case False
    have "n mod 10 < 10" by simp
    with False 1 show ?thesis by (subst digits.simps) (simp add: is_decimal_char_of)
  qed
qed

lemma digits_nonempty: "digits n \<noteq> []"
  by (subst digits.simps) simp

lemma digits_value: "foldl (\<lambda>a c. a * 10 + digit_val c) 0 (digits n) = n"
proof (induction n rule: digits.induct)
  case (1 n)
  show ?case
  proof (cases "n < 10")
    case True
    then show ?thesis by (subst digits.simps) (simp add: digit_val_char_of)
  next
    case False
    have "n mod 10 < 10" by simp
    with False 1 show ?thesis by (subst digits.simps) (simp add: digit_val_char_of)
  qed
qed

lemma parseInt_plain:
  assumes "dropWhile is_space s = s" "take 1 s \<noteq> ''-''" "take 1 s \<noteq> ''+''"
    and "take 2 s \<noteq> ''0x''" "take 2 s \<noteq> ''0X''"
    and "\<forall>x\<in>set s. in_radix 10 x" "s \<noteq> []"
  shows "parseInt s = Num (int (foldl (\<lambda>a c. a * 10 + digit_val c) 0 s))"
proof -
  have tw: "takeWhile (in_radix 10) s = s"
    using assms(6) by simp
  show ?thesis
    using assms(1-5,7) by (simp add: parseInt_def Let_def tw del: One_nat_def)
qed

lemma parseInt_digits: "parseInt (digits n) = Num (int n)"
proof -
  obtain c cs where d: "digits n = c # cs"
    using digits_nonempty [of n] by (cases "digits n") auto
  have all: "\<forall>x\<in>set (digits n). is_decimal x"
    by (rule digits_all)
  then have c: "is_decimal c" by (simp add: d)
  have nox: "take 2 (digits n) \<noteq> ''0x''" "take 2 (digits n) \<noteq> ''0X''"
  proof -
    have "take 2 (c # cs) \<noteq> ''0x'' \<and> take 2 (c # cs) \<noteq> ''0X''"
    proof (cases cs)
      case Nil
      then show ?thesis by simp
    next
      case (Cons b bs)
      with all have "is_decimal b" by (simp add: d)
      with Cons show ?thesis by (auto simp: is_decimal_facts numeral_2_eq_2)
    qed
    then show "take 2 (digits n) \<noteq> ''0x''" "take 2 (digits n) \<noteq> ''0X''"
      unfolding d by blast+
  qed
  have r: "\<forall>x\<in>set (digits n). in_radix 10 x"
    using all by (simp add: is_decimal_facts)
  have dw: "dropWhile is_space (digits n) = digits n"
    unfolding d using c by (simp add: is_decimal_facts)
  have sg: "take 1 (digits n) \<noteq> ''-''" "take 1 (digits n) \<noteq> ''+''"
    unfolding d using c by (simp_all add: is_decimal_facts)
  have "parseInt (digits n) = Num (int (foldl (\<lambda>a c. a * 10 + digit_val c) 0 (digits n)))"
    by (rule parseInt_plain [OF dw sg nox r digits_nonempty])
  then show ?thesis by (simp add: digits_value)
qed

lemma parseInt_toString: "parseInt (toString (Num (int n))) = Num (int n)"
  by (simp add: toString_def parseInt_digits)

subsection \<open>RateLimiter: one window\<close>

lemma visible_None_mono:
  "visible s t k = None \<Longrightarrow> t \<le> t' \<Longrightarrow> visible s t' k = None"
  by (auto simp: visible_def split: option.splits prod.splits if_splits)

lemma counter_text_nonempty: "counter_text c \<noteq> Some []"
  by (simp add: counter_text_def toString_def digits_nonempty)

lemma count_of_counter_text:
  "(case counter_text c of None \<Rightarrow> Num 0 | Some s \<Rightarrow> if s = [] then Num 0 else parseInt s)
     = Num (int c)"
  using parseInt_toString [of c]
  by (simp add: counter_text_def toString_def digits_nonempty)

lemma checkRateLimit_below:
  assumes "\<not> get_fails (RATE_LIMIT e)" "\<not> put_fails (RATE_LIMIT e)"
    and "visible (RATE_LIMIT e) (now e) (rateKey ip) = counter_text c" and "c < 30"
  shows "fst (checkRateLimit ip e)
           = \<lparr>allowed = True, remaining = Some (Num (29 - int c)), resetTime = None\<rparr>"
    and "RATE_LIMIT (snd (checkRateLimit ip e))
           = (RATE_LIMIT e)\<lparr>entries := (entries (RATE_LIMIT e))
               (rateKey ip \<mapsto> (toString (Num (int (Suc c))), Some (now e + 60)))\<rparr>"
  using assms count_of_counter_text [of c]
  by (simp_all add: checkRateLimit_def checkRateLimit_try_def bindE_def rl_get_def rl_put_def
      kv_get_def kv_put_def returnE_def record_event_def Let_def js_ge_def js_add_def js_sub_def
      limit_def window_def add.commute)

lemma checkRateLimit_at_limit:
  assumes "\<not> get_fails (RATE_LIMIT e)"
    and "visible (RATE_LIMIT e) (now e) (rateKey ip) = counter_text c" and "30 \<le> c"
  shows "fst (checkRateLimit ip e)
           = \<lparr>allowed = False, remaining = None, resetTime = Some 60\<rparr>"
    and "RATE_LIMIT (snd (checkRateLimit ip e)) = RATE_LIMIT e"
  using assms count_of_counter_text [of c]
  by (simp_all add: checkRateLimit_def checkRateLimit_try_def bindE_def rl_get_def rl_put_def
      kv_get_def kv_put_def returnE_def record_event_def Let_def js_ge_def js_add_def js_sub_def
      limit_def window_def)

lemma run_checks_window:
  assumes "\<not> get_fails (RATE_LIMIT e)" "\<not> put_fails (RATE_LIMIT e)"
    and "\<forall>t\<in>set ts. visible (RATE_LIMIT e) t (rateKey ip) = counter_text c"
    and "\<forall>t\<in>set ts. \<forall>t'\<in>set ts. t' < t + 60"
  shows "fst (run_checks ip ts e)
     = map (\<lambda>i. if c + i < 30
                 then \<lparr>allowed = True, remaining = Some (Num (29 - int (c + i))), resetTime = None\<rparr>
                 else \<lparr>allowed = False, remaining = None, resetTime = Some 60\<rparr>) [0..<length ts]"
  using assms
proof (induction ts arbitrary: e c)
  case Nil
  show ?case by simp
next
  case (Cons t ts)
  let ?e = "e\<lparr>now := t\<rparr>"
  let ?e1 = "snd (checkRateLimit ip ?e)"
  let ?f = "\<lambda>c i. if c + i < 30
                 then \<lparr>allowed = True, remaining = Some (Num (29 - int (c + i))), resetTime = None\<rparr>
                 else \<lparr>allowed = False, remaining = None, resetTime = Some 60\<rparr>"
  have g: "\<not> get_fails (RATE_LIMIT ?e)" "\<not> put_fails (RATE_LIMIT ?e)"
    and v: "visible (RATE_LIMIT ?e) (now ?e) (rateKey ip) = counter_text c"
    using Cons.prems by simp_all
  have w: "\<forall>t\<in>set ts. \<forall>t'\<in>set ts. t' < t + 60"
    using Cons.prems(4) by simp
  have shift: "map (?f c) [0..<length (t # ts)] = ?f c 0 # map (?f (Suc c)) [0..<length ts]"
    by (simp add: upt_conv_Cons map_Suc_upt [symmetric] del: upt_Suc)
  show ?case
  proof (cases "c < 30")
    case True
    note s = checkRateLimit_below [OF g v True]
    have g1: "\<not> get_fails (RATE_LIMIT ?e1)" "\<not> put_fails (RATE_LIMIT ?e1)"
      using Cons.prems(1,2) by (simp_all add: s(2))
    have v1: "\<forall>t'\<in>set ts. visible (RATE_LIMIT ?e1) t' (rateKey ip) = counter_text (Suc c)"
      using Cons.prems(4) by (simp add: s(2) visible_def counter_text_def)
    have "fst (run_checks ip ts ?e1) = map (?f (Suc c)) [0..<length ts]"
      by (rule Cons.IH [OF g1 v1 w])
    then show ?thesis
      unfolding shift using True by (simp add: Let_def s(1))
  next
    case False
    then have c30: "30 \<le> c" by simp
    note s = checkRateLimit_at_limit [OF g(1) v c30]
    have g1: "\<not> get_fails (RATE_LIMIT ?e1)" "\<not> put_fails (RATE_LIMIT ?e1)"
      using Cons.prems(1,2) by (simp_all add: s(2))
    have v1: "\<forall>t'\<in>set ts. visible (RATE_LIMIT ?e1) t' (rateKey ip) = counter_text c"
      using Cons.prems(3) by (simp add: s(2))
    have "fst (run_checks ip ts ?e1) = map (?f c) [0..<length ts]"
      by (rule Cons.IH [OF g1 v1 w])
    moreover have "map (?f c) [0..<length ts] = map (?f (Suc c)) [0..<length ts]"
      using c30 by simp
    ultimately show ?thesis
      unfolding shift using False by (simp add: Let_def s(1))
  qed
qed

text \<open>
  C2, as the code has it. A client whose counter is not live at its first request and
  who makes 31 requests within 60 seconds of the first, against a counter store that
  answers, is allowed the first 30 times, with 29 down to 0 requests remaining, and
  rejected the 31st time; the rejection carries the window length, the constant 60, as
  its reset time.
\<close>

theorem rate_limit_window:
  assumes "\<not> get_fails (RATE_LIMIT e)" and "\<not> put_fails (RATE_LIMIT e)"
    and "sorted ts" and "length ts = 31" and "last ts < hd ts + 60"
    and "visible (RATE_LIMIT e) (hd ts) (rateKey ip) = None"
  shows "map allowed (fst (run_checks ip ts e)) = replicate 30 True @ [False]
       \<and> map remaining (take 30 (fst (run_checks ip ts e)))
           = map (\<lambda>i. Some (Num (29 - int i))) [0..<30]
       \<and> resetTime (last (fst (run_checks ip ts e))) = Some window
       \<and> window = 60"
proof -
  have ne: "ts \<noteq> []" using assms(4) by auto
  have lo: "hd ts \<le> t" if "t \<in> set ts" for t
    using assms(3) that ne by (cases ts) auto
  have hi: "t \<le> last ts" if "t \<in> set ts" for t
  proof -
    have "sorted (butlast ts @ [last ts])" using assms(3) ne by simp
    then have "\<forall>x\<in>set (butlast ts). x \<le> last ts" by (simp add: sorted_append)
    moreover have "t \<in> set (butlast ts @ [last ts])" using that ne by simp
    ultimately show ?thesis by auto
  qed
  have v: "\<forall>t\<in>set ts. visible (RATE_LIMIT e) t (rateKey ip) = counter_text 0"
    using visible_None_mono [OF assms(6)] lo by (simp add: counter_text_def)
  have w: "\<forall>t\<in>set ts. \<forall>t'\<in>set ts. t' < t + 60"
  proof (intro ballI)
    fix t t' assume "t \<in> set ts" "t' \<in> set ts"
    with lo [of t] hi [of t'] assms(5) show "t' < t + 60" by linarith
  qed
  have r: "fst (run_checks ip ts e)
     = map (\<lambda>i. if i < 30
                 then \<lparr>allowed = True, remaining = Some (Num (29 - int i)), resetTime = None\<rparr>
                 else \<lparr>allowed = False, remaining = None, resetTime = Some 60\<rparr>) [0..<31]"
    using run_checks_window [OF assms(1,2) v w] assms(4) by simp
  have u: "[0..<31] = [0..<30] @ [30::nat]"
    using upt_Suc_append [of 0 30] by simp
  have "map (\<lambda>i::nat. i < 30) [0..<30] = map (\<lambda>i. True) [0..<30]"
    by (rule map_cong) auto
  then have m: "map (\<lambda>i::nat. i < 30) [0..<30] = replicate 30 True"
    by (simp only: map_replicate_const length_upt) simp
  have a: "map allowed (fst (run_checks ip ts e)) = replicate 30 True @ [False]"
    unfolding r u by (simp add: m cong: map_cong)
  have b: "take 30 (fst (run_checks ip ts e))
      = map (\<lambda>i. \<lparr>allowed = True, remaining = Some (Num (29 - int i)), resetTime = None\<rparr>) [0..<30]"
    unfolding r u by (simp cong: map_cong)
  have c: "last (fst (run_checks ip ts e)) = \<lparr>allowed = False, remaining = None, resetTime = Some 60\<rparr>"
    unfolding r u by simp
  show ?thesis
    unfolding b c using a by (simp add: window_def comp_def)
qed

theorem rate_limit_window_witness:
  "sorted [0..<31] \<and> length [0..<31] = 31 \<and> last [0..<31] < hd [0..<31] + 60
   \<and> map allowed (fst (run_checks ''10.0.0.1'' [0..<31] env0)) = replicate 30 True @ [False]
   \<and> resetTime (last (fst (run_checks ''10.0.0.1'' [0..<31] env0))) = Some 60"
proof -
  have a: "\<not> get_fails (RATE_LIMIT env0)" "\<not> put_fails (RATE_LIMIT env0)"
    by (simp_all add: env0_def kv_empty_def)
  have h: "hd [0..<31] = (0::nat)" by (simp add: upt_rec)
  have l: "last [0..<31] = (30::nat)" using last_upt [of 0 31] by simp
  have b: "last [0..<31] < hd [0..<31] + (60::nat)" by (simp add: h l)
  have c: "visible (RATE_LIMIT env0) (hd [0..<31]) (rateKey ''10.0.0.1'') = None"
    by (simp add: env0_def kv_empty_def visible_def)
  have s: "sorted [0..<31::nat]" by simp
  have n: "length [0..<31::nat] = 31" by simp
  from rate_limit_window [OF a s n b c] show ?thesis
    using s n b by (simp only: window_def)
qed

text \<open>
  C2 as stated fails: after 30 requests in second 0, a request in second 50 is rejected
  with reset time 60, while the counter, and with it the window that the first request
  opened, has 10 seconds left to live.
\<close>

theorem reset_time_is_not_remaining_lifetime:
  "map allowed (fst (run_checks ''10.0.0.1'' (replicate 30 0 @ [50]) env0))
     = replicate 30 True @ [False]
   \<and> resetTime (last (fst (run_checks ''10.0.0.1'' (replicate 30 0 @ [50]) env0))) = Some 60
   \<and> remaining_lifetime (RATE_LIMIT (snd (run_checks ''10.0.0.1'' (replicate 30 0 @ [50]) env0)))
        50 (rateKey ''10.0.0.1'') = Some 10"
  by code_simp

subsection \<open>ConversationStore: eviction at capacity\<close>

lemma kept_snoc:
  "kept (xs @ [x]) = (if 100 \<le> length xs then tl (kept xs @ [x]) else kept xs @ [x])"
proof (cases "100 \<le> length xs")
  case True
  then have "Suc (length xs) - 100 = Suc (length xs - 100)" by simp
  moreover have "drop (length xs - 100) xs \<noteq> []" using True by simp
  ultimately show ?thesis
    using True by (simp add: kept_def drop_Suc tl_drop)
next
  case False
  then show ?thesis by (simp add: kept_def)
qed

lemma evicted_snoc:
  "evicted (xs @ [x]) = (if 100 \<le> length xs then evicted xs @ [hd (kept xs)] else [])"
proof (cases "100 \<le> length xs")
  case True
  then have s: "Suc (length xs) - 100 = Suc (length xs - 100)" and l: "length xs - 100 < length xs"
    by simp_all
  have "evicted (xs @ [x]) = take (Suc (length xs - 100)) (xs @ [x])"
    unfolding evicted_def by (simp only: length_append_singleton s)
  also have "\<dots> = take (Suc (length xs - 100)) xs"
    using l by simp
  also have "\<dots> = take (length xs - 100) xs @ [xs ! (length xs - 100)]"
    by (rule take_Suc_conv_app_nth [OF l])
  also have "xs ! (length xs - 100) = hd (kept xs)"
    unfolding kept_def by (rule hd_drop_conv_nth [OF l, symmetric])
  finally show ?thesis
    using True by (simp add: evicted_def)
next
  case False
  then show ?thesis by (simp add: evicted_def)
qed

lemma length_kept: "length (kept xs) = min 100 (length xs)"
  by (simp add: kept_def)

lemma kept_subset: "set (kept xs) \<subseteq> set xs"
  by (simp add: kept_def set_drop_subset)

lemma evicted_subset: "set (evicted xs) \<subseteq> set xs"
  by (simp add: evicted_def set_take_subset)

lemma distinct_kept: "distinct (map f xs) \<Longrightarrow> distinct (map f (kept xs))"
  by (simp add: kept_def drop_map [symmetric])

lemma log_inv_step:
  assumes inv: "log_inv c e old" and c: "conversationId m = c"
    and new: "msg_id m \<notin> msg_id ` set old" and dist: "distinct (map msg_id old)"
  shows "fst (saveMessage m e) = Inr ()" and "log_inv c (snd (saveMessage m e)) (old @ [m])"
proof -
  let ?e1 = "snd (saveMessage m e)"
  let ?ids0 = "map msg_id (kept old)"
  let ?i = "msg_id m"
  have fl: "\<not> put_fails (CHAT_DB e)" "\<not> get_fails (CHAT_DB e)" "\<not> delete_fails (CHAT_DB e)"
    and p: "parse_ids (visible (CHAT_DB e) (now e) (convKey (conversationId m))) = Inr ?ids0"
    and live: "\<And>x. x \<in> set (kept old) \<Longrightarrow>
                 visible (CHAT_DB e) (now e) (msgKey c (msg_id x)) = Some (JMessage x)"
    and gone: "\<And>x. x \<in> set (evicted old) \<Longrightarrow>
                 visible (CHAT_DB e) (now e) (msgKey c (msg_id x)) = None"
    using inv by (simp_all add: log_inv_def c)
  have new': "msg_id x \<noteq> msg_id m" if "x \<in> set old" for x
    using new that by (metis imageI)
  show ok: "fst (saveMessage m e) = Inr ()"
    by (rule saveMessage_succeeds [OF fl p])
  from saveMessage_Inr [OF ok] p
  have v: "visible (CHAT_DB ?e1) t k = after_save m ?ids0 (CHAT_DB e) t k" for t k
    by auto
  note fr = saveMessage_frame [of m e]
  have len: "100 \<le> length (kept old) \<longleftrightarrow> 100 \<le> length old"
    by (simp add: length_kept)
  have full: "kept old \<noteq> [] \<and> hd (?ids0 @ [?i]) = msg_id (hd (kept old))
      \<and> hd (kept old) \<in> set old
      \<and> msg_id (hd (kept old)) \<notin> msg_id ` set (tl (kept old))"
    if "100 \<le> length old"
  proof -
    from that have ne: "kept old \<noteq> []" by (auto simp: kept_def)
    then obtain h r where hr: "kept old = h # r" by (cases "kept old") auto
    have "distinct (map msg_id (h # r))"
      using distinct_kept [OF dist] hr by simp
    then have "msg_id h \<notin> msg_id ` set r" by simp
    moreover have "h \<in> set old" using kept_subset [of old] hr by auto
    ultimately show ?thesis using hr by simp
  qed
  have a: "parse_ids (visible (CHAT_DB ?e1) (now ?e1) (convKey c)) = Inr (map msg_id (kept (old @ [m])))"
    using full by (auto simp: v after_save_def c parse_ids_def kept_snoc len map_tl)
  have b: "visible (CHAT_DB ?e1) (now ?e1) (msgKey c (msg_id x)) = Some (JMessage x)"
    if x: "x \<in> set (kept (old @ [m]))" for x
  proof (cases "x = m")
    case True
    have "msg_id (hd (kept old)) \<noteq> ?i" if "100 \<le> length old"
      using full [OF that] new' by blast
    then show ?thesis
      using True full
      by (auto simp: v after_save_def c convKey_neq_msgKey [symmetric] msgKey_inj len)
  next
    case False
    have xin: "x \<in> set (kept old)" and xh: "100 \<le> length old \<Longrightarrow> x \<in> set (tl (kept old))"
      using x False full by (auto simp: kept_snoc split: if_splits dest: list.set_sel(2) [rotated])
    then have "x \<in> set old" using kept_subset [of old] by auto
    then have ni: "msg_id x \<noteq> ?i" by (rule new')
    have nh: "msg_id x \<noteq> msg_id (hd (kept old))" if "100 \<le> length old"
    proof -
      from xh [OF that] have "msg_id x \<in> msg_id ` set (tl (kept old))" by (rule imageI)
      with full [OF that] show ?thesis by metis
    qed
    show ?thesis
      using ni nh full live [OF xin]
      by (auto simp: v after_save_def c convKey_neq_msgKey [symmetric] msgKey_inj len fr)
  qed
  have d: "visible (CHAT_DB ?e1) (now ?e1) (msgKey c (msg_id x)) = None"
    if x: "x \<in> set (evicted (old @ [m]))" for x
  proof -
    from x have l: "100 \<le> length old" and x2: "x \<in> set (evicted old) \<or> x = hd (kept old)"
      by (auto simp: evicted_snoc split: if_splits)
    show ?thesis
    proof (cases "msg_id x = msg_id (hd (kept old))")
      case True
      then show ?thesis
        using l full [OF l]
        by (simp add: v after_save_def c convKey_neq_msgKey [symmetric] msgKey_inj len)
    next
      case False
      with x2 have xe: "x \<in> set (evicted old)" by auto
      then have "x \<in> set old" using evicted_subset [of old] by auto
      then have ni: "msg_id x \<noteq> ?i" by (rule new')
      show ?thesis
        using False ni gone [OF xe] l full [OF l]
        by (simp add: v after_save_def c convKey_neq_msgKey [symmetric] msgKey_inj len fr)
    qed
  qed
  show "log_inv c ?e1 (old @ [m])"
    unfolding log_inv_def using fl fr a b d by simp
qed

lemma append_all_inv:
  assumes "log_inv c e old" and "\<forall>m\<in>set ms. conversationId m = c"
    and "distinct (map msg_id (old @ ms))"
  shows "fst (append_all ms e) = Inr () \<and> log_inv c (snd (append_all ms e)) (old @ ms)"
  using assms
proof (induction ms arbitrary: e old)
  case Nil
  then show ?case by (simp add: returnE_def)
next
  case (Cons m ms)
  have c: "conversationId m = c" using Cons.prems(2) by simp
  have new: "msg_id m \<notin> msg_id ` set old" and dist: "distinct (map msg_id old)"
    using Cons.prems(3) by auto
  note st = log_inv_step [OF Cons.prems(1) c new dist]
  have "fst (append_all ms (snd (saveMessage m e))) = Inr ()
      \<and> log_inv c (snd (append_all ms (snd (saveMessage m e)))) ((old @ [m]) @ ms)"
    by (rule Cons.IH [OF st(2)]) (use Cons.prems in simp_all)
  then show ?case
    by (simp add: bindE_fst_Inr [of "saveMessage m" e, OF st(1)])
qed

lemma map_filter_stored_all:
  assumes "\<forall>x\<in>set xs. visible s t (msgKey c (msg_id x)) = Some (JMessage x)"
  shows "List.map_filter (stored_message s t c) (map msg_id xs) = xs"
  using assms by (induction xs) (simp_all add: stored_message_def)

lemma digits_inj: "digits a = digits b \<Longrightarrow> a = b"
  by (metis digits_value)

text \<open>
  C1. More than 100 messages are appended to a new conversation, all appends succeed,
  the messages have distinct ids and their timestamps do not decrease (the data model
  of the messages). Then a read returns the 100 messages appended last, in the order
  of the appends, and the record of every evicted message is gone from the store.
\<close>

theorem fifo_eviction_at_capacity:
  assumes "\<not> put_fails (CHAT_DB e)" and "\<not> get_fails (CHAT_DB e)"
    and "\<not> delete_fails (CHAT_DB e)"
    and "visible (CHAT_DB e) (now e) (convKey c) = None"
    and "\<forall>m\<in>set msgs. conversationId m = c"
    and "distinct (map msg_id msgs)"
    and "sorted (map timestamp msgs)"
    and "100 < length msgs"
  shows "fst (append_all msgs e) = Inr ()
       \<and> fst (getConversationMessages c (snd (append_all msgs e)))
           = Inr (drop (length msgs - 100) msgs)
       \<and> length (drop (length msgs - 100) msgs) = 100
       \<and> (\<forall>m\<in>set (take (length msgs - 100) msgs).
             fst (db_get (msgKey c (msg_id m)) (snd (append_all msgs e))) = Inr None)"
proof -
  let ?e1 = "snd (append_all msgs e)"
  have i0: "log_inv c e []"
    using assms(1-4) by (simp add: log_inv_def kept_def evicted_def parse_ids_def)
  from append_all_inv [OF i0, of msgs] assms(5,6)
  have ok: "fst (append_all msgs e) = Inr ()" and inv: "log_inv c ?e1 msgs"
    by simp_all
  have gf: "\<not> get_fails (CHAT_DB ?e1)"
    and p: "parse_ids (visible (CHAT_DB ?e1) (now ?e1) (convKey c)) = Inr (map msg_id (kept msgs))"
    and live: "\<forall>x\<in>set (kept msgs).
                 visible (CHAT_DB ?e1) (now ?e1) (msgKey c (msg_id x)) = Some (JMessage x)"
    and gone: "\<forall>x\<in>set (evicted msgs).
                 visible (CHAT_DB ?e1) (now ?e1) (msgKey c (msg_id x)) = None"
    using inv by (simp_all add: log_inv_def)
  have "kept msgs \<noteq> []" using assms(8) by (auto simp: kept_def)
  with p have l: "visible (CHAT_DB ?e1) (now ?e1) (convKey c) = Some (JIds (map msg_id (kept msgs)))"
    by (auto simp: parse_ids_cases)
  have ty: "\<forall>i\<in>set (map msg_id (kept msgs)).
      \<forall>l. visible (CHAT_DB ?e1) (now ?e1) (msgKey c i) \<noteq> Some (JIds l)"
    using live by auto
  have "sorted (map timestamp (kept msgs))"
    using assms(7) by (simp add: kept_def drop_map [symmetric])
  then have srt: "sort_key timestamp (kept msgs) = kept msgs"
    by (rule sort_key_id_if_sorted)
  have rd: "fst (getConversationMessages c ?e1) = Inr (kept msgs)"
    by (simp add: getConversationMessages_ok [OF gf l ty] map_filter_stored_all [OF live] srt)
  have ev: "fst (db_get (msgKey c (msg_id m)) ?e1) = Inr None" if "m \<in> set (evicted msgs)" for m
    using gone that gf by (simp add: db_get_ok)
  show ?thesis
    using ok rd ev assms(8) by (simp add: kept_def evicted_def)
qed

theorem fifo_eviction_at_capacity_witness:
  "100 < length (map example_message [0..<101])
   \<and> fst (append_all (map example_message [0..<101]) env0) = Inr ()
   \<and> fst (getConversationMessages ''conv_abc''
          (snd (append_all (map example_message [0..<101]) env0)))
       = Inr (map example_message [1..<101])
   \<and> fst (db_get (msgKey ''conv_abc'' (msg_id (example_message 0)))
          (snd (append_all (map example_message [0..<101]) env0))) = Inr None"
proof -
  let ?ms = "map example_message [0..<101]"
  have f: "\<not> put_fails (CHAT_DB env0)" "\<not> get_fails (CHAT_DB env0)"
    "\<not> delete_fails (CHAT_DB env0)"
    by (simp_all add: env0_def kv_empty_def)
  have v: "visible (CHAT_DB env0) (now env0) (convKey ''conv_abc'') = None"
    by (simp add: env0_def kv_empty_def visible_def)
  have c: "\<forall>m\<in>set ?ms. conversationId m = ''conv_abc''"
    by (simp add: example_message_def)
  have "inj_on (\<lambda>n. ''m'' @ digits n) (set [0..<101])"
    by (rule inj_onI) (simp add: digits_inj)
  then have d: "distinct (map msg_id ?ms)"
    by (simp add: distinct_map comp_def example_message_def)
  have ts: "map timestamp ?ms = map int [0..<101]"
    by (simp add: example_message_def)
  have "sorted (map int [0..<101])"
    by (simp only: sorted_map) (simp add: sorted_wrt_mono_rel [OF _ sorted_upt [of 0 101]])
  then have s: "sorted (map timestamp ?ms)"
    by (simp only: ts)
  have n: "100 < length ?ms" by simp
  have dr: "drop (length ?ms - 100) ?ms = map example_message [1..<101]"
    by (simp add: drop_map)
  have tk: "example_message 0 \<in> set (take (length ?ms - 100) ?ms)"
    by (simp add: take_map upt_rec)
  from fifo_eviction_at_capacity [OF f v c d s n] tk show ?thesis
    unfolding dr using n by blast
qed

end
